theory Spec2Isabelle
  imports Complex_Main "HOL-Library.Product_Lexorder"
begin

section \<open>Numbers\<close>

text \<open>
  A JavaScript number is an IEEE-754 double: a finite number, an infinity or \<^verbatim>\<open>NaN\<close>. A finite
  number is the rational it denotes; the negative zero is not told apart from zero (the
  program divides by a positive count only).
\<close>

datatype number = Fin rat | PInf | NInf | NaN

text \<open>
  Addition, subtraction and multiplication: exact on finite numbers, IEEE-754 on the
  infinities and on \<^verbatim>\<open>NaN\<close>. The order is that of \<^verbatim>\<open><=\<close> and \<^verbatim>\<open><\<close>: false when an operand is \<^verbatim>\<open>NaN\<close>.

  The program's arithmetic on the tallies, ranks and points is on integers, where the double
  operations are exact below \<open>2\<^sup>5\<^sup>3\<close>, and the sort uses the sign of a difference only, which
  rounding keeps; the model computes these, and the placeholder score of \<^verbatim>\<open>src/script.js\<close>,
  with the exact operations. The goalie rates are fractions, on which every double operation
  rounds: they are parsed, added and divided with the rounded operations further below.
\<close>

instantiation number :: "{zero, one, plus, uminus, minus, times, ord}"
begin

definition zero_number :: number where
  "zero_number = Fin 0"

definition one_number :: number where
  "one_number = Fin 1"

fun plus_number :: "number \<Rightarrow> number \<Rightarrow> number" where
  "plus_number NaN y = NaN"
| "plus_number x NaN = NaN"
| "plus_number (Fin a) (Fin b) = Fin (a + b)"
| "plus_number PInf NInf = NaN"
| "plus_number NInf PInf = NaN"
| "plus_number PInf y = PInf"
| "plus_number x PInf = PInf"
| "plus_number NInf y = NInf"
| "plus_number x NInf = NInf"

fun uminus_number :: "number \<Rightarrow> number" where
  "uminus_number (Fin a) = Fin (- a)"
| "uminus_number PInf = NInf"
| "uminus_number NInf = PInf"
| "uminus_number NaN = NaN"

definition minus_number :: "number \<Rightarrow> number \<Rightarrow> number" where
  "minus_number x y = x + (- y)"

fun times_number :: "number \<Rightarrow> number \<Rightarrow> number" where
  "times_number NaN y = NaN"
| "times_number x NaN = NaN"
| "times_number (Fin a) (Fin b) = Fin (a * b)"
| "times_number (Fin a) PInf = (if 0 < a then PInf else if a < 0 then NInf else NaN)"
| "times_number (Fin a) NInf = (if 0 < a then NInf else if a < 0 then PInf else NaN)"
| "times_number PInf (Fin b) = (if 0 < b then PInf else if b < 0 then NInf else NaN)"
| "times_number NInf (Fin b) = (if 0 < b then NInf else if b < 0 then PInf else NaN)"
| "times_number PInf PInf = PInf"
| "times_number PInf NInf = NInf"
| "times_number NInf PInf = NInf"
| "times_number NInf NInf = PInf"

fun less_eq_number :: "number \<Rightarrow> number \<Rightarrow> bool" where
  "less_eq_number NaN y = False"
| "less_eq_number x NaN = False"
| "less_eq_number (Fin a) (Fin b) = (a \<le> b)"
| "less_eq_number NInf y = True"
| "less_eq_number x PInf = True"
| "less_eq_number PInf y = False"
| "less_eq_number x NInf = False"

definition less_number :: "number \<Rightarrow> number \<Rightarrow> bool" where
  "less_number x y = (x \<le> y \<and> \<not> y \<le> x)"

instance ..

end

instance number :: comm_monoid_add
proof
  fix x y z :: number
  show "x + y + z = x + (y + z)"
    by (cases x; cases y; cases z; simp)
  show "x + y = y + x"
    by (cases x; cases y; simp)
  show "0 + x = x"
    by (cases x; simp add: zero_number_def)
qed

instance number :: numeral ..

text \<open>
  Rounding a rational to the nearest double, ties to the even significand: 53 bits of
  significand, exponents from -1022 (below which the spacing stays \<open>2\<^sup>-\<^sup>1\<^sup>0\<^sup>7\<^sup>4\<close>) to 1023 (above
  which the result is an infinity).
\<close>

definition pow2 :: "int \<Rightarrow> rat" where
  "pow2 k = (if 0 \<le> k then 2 ^ nat k else 1 / 2 ^ nat (- k))"

fun bitLength :: "nat \<Rightarrow> nat" where
  "bitLength n = (if n = 0 then 0 else Suc (bitLength (n div 2)))"

declare bitLength.simps [simp del]

text \<open>The exponent \<open>e\<close> of a positive rational: \<open>2\<^sup>e \<le> a < 2\<^sup>e\<^sup>+\<^sup>1\<close>.\<close>

definition floorLog2 :: "rat \<Rightarrow> int" where
  "floorLog2 a =
     (let (p, q) = quotient_of a;
          k = int (bitLength (nat p)) - int (bitLength (nat q))
      in if pow2 k \<le> a then k else k - 1)"

definition roundHalfEven :: "rat \<Rightarrow> int" where
  "roundHalfEven x =
     (let f = \<lfloor>x\<rfloor>; r = x - of_int f
      in if r < 1 / 2 then f else if 1 / 2 < r then f + 1 else if even f then f else f + 1)"

definition round64 :: "rat \<Rightarrow> number" where
  "round64 q =
     (if q = 0 then Fin 0
      else
        (let a = \<bar>q\<bar>;
             e = max (floorLog2 a) (- 1022);
             ulp = pow2 (e - 52);
             r = of_int (roundHalfEven (a / ulp)) * ulp
         in if pow2 1024 \<le> r then (if 0 < q then PInf else NInf)
            else Fin (if 0 < q then r else - r)))"

text \<open>The double addition \<^verbatim>\<open>x + y\<close> and division \<^verbatim>\<open>x / y\<close>: the exact result, rounded.\<close>

definition fadd :: "number \<Rightarrow> number \<Rightarrow> number" where
  "fadd x y = (case x + y of Fin q \<Rightarrow> round64 q | s \<Rightarrow> s)"

fun fdiv :: "number \<Rightarrow> number \<Rightarrow> number" where
  "fdiv NaN y = NaN"
| "fdiv x NaN = NaN"
| "fdiv (Fin a) (Fin b) =
     (if b = 0 then (if 0 < a then PInf else if a < 0 then NInf else NaN) else round64 (a / b))"
| "fdiv (Fin a) y = Fin 0"
| "fdiv x (Fin b) = (if 0 \<le> b then x else - x)"
| "fdiv x y = NaN"

section \<open>JavaScript values\<close>

text \<open>
  The payloads are the results of \<^verbatim>\<open>JSON.parse\<close>: null, booleans, numbers, strings, arrays and
  objects; \<^verbatim>\<open>undefined\<close> is what reading an absent property gives. An object is the association
  list of its own properties.
\<close>

datatype jsval =
    JUndefined
  | JNull
  | JBool bool
  | JNum number
  | JStr string
  | JArr "jsval list"
  | JObj "(string \<times> jsval) list"

datatype error = TypeError

text \<open>ToBoolean, as \<^verbatim>\<open>||\<close> and \<^verbatim>\<open>!\<close> apply it.\<close>

fun truthy :: "jsval \<Rightarrow> bool" where
  "truthy JUndefined = False"
| "truthy JNull = False"
| "truthy (JBool b) = b"
| "truthy (JNum n) = (n \<noteq> 0 \<and> n \<noteq> NaN)"
| "truthy (JStr s) = (s \<noteq> [])"
| "truthy (JArr xs) = True"
| "truthy (JObj kvs) = True"

text \<open>\<^verbatim>\<open>a || b\<close>\<close>

definition js_or :: "jsval \<Rightarrow> jsval \<Rightarrow> jsval" where
  "js_or a b = (if truthy a then a else b)"

text \<open>
  \<^verbatim>\<open>v.k\<close> for a receiver that is neither null nor undefined (on those the read throws, which
  the callers below check first). None of the property names the program reads is a property
  of a built-in prototype, so a primitive or an array gives \<^verbatim>\<open>undefined\<close>.
\<close>

fun getProp :: "jsval \<Rightarrow> string \<Rightarrow> jsval" where
  "getProp (JObj kvs) k = (case map_of kvs k of None \<Rightarrow> JUndefined | Some v \<Rightarrow> v)"
| "getProp v k = JUndefined"

definition nullish :: "jsval \<Rightarrow> bool" where
  "nullish v = (v = JNull \<or> v = JUndefined)"

section \<open>parseInt and parseFloat\<close>

text \<open>
  The two built-ins convert their argument to a string, skip leading white space and read the
  longest prefix that is a numeral; \<open>None\<close> is the result \<^verbatim>\<open>NaN\<close>. Strings are byte lists here,
  so the white space is the ASCII white space. \<^verbatim>\<open>parseFloat\<close> rounds the value of the numeral to
  the nearest double; \<^verbatim>\<open>parseInt\<close> is modelled without the rounding, which changes no integer
  below \<open>2\<^sup>5\<^sup>3\<close>.
\<close>

definition isWhiteSpace :: "char \<Rightarrow> bool" where
  "isWhiteSpace c = (c \<in> set [CHR 0x20, CHR 0x09, CHR 0x0A, CHR 0x0B, CHR 0x0C, CHR 0x0D])"

definition digitValue :: "char \<Rightarrow> nat option" where
  "digitValue c = map_of
     [(CHR ''0'', 0), (CHR ''1'', 1), (CHR ''2'', 2), (CHR ''3'', 3), (CHR ''4'', 4),
      (CHR ''5'', 5), (CHR ''6'', 6), (CHR ''7'', 7), (CHR ''8'', 8), (CHR ''9'', 9)] c"

definition isDigit :: "char \<Rightarrow> bool" where
  "isDigit c = (digitValue c \<noteq> None)"

definition digitsValue :: "string \<Rightarrow> nat" where
  "digitsValue ds = foldl (\<lambda>acc c. 10 * acc + (case digitValue c of None \<Rightarrow> 0 | Some d \<Rightarrow> d)) 0 ds"

text \<open>An optional sign in front of a numeral: the sign and the rest.\<close>

fun stripSign :: "string \<Rightarrow> rat \<times> string" where
  "stripSign [] = (1, [])"
| "stripSign (c # cs) =
     (if c = CHR ''-'' then (- 1, cs) else if c = CHR ''+'' then (1, cs) else (1, c # cs))"

definition parseIntStr :: "string \<Rightarrow> number option" where
  "parseIntStr inputString =
     (let (sign, S) = stripSign (dropWhile isWhiteSpace inputString);
          Z = takeWhile isDigit S
      in if Z = [] then None else Some (Fin (sign * of_nat (digitsValue Z))))"

text \<open>
  The exponent part of a decimal numeral: \<^verbatim>\<open>e\<close> or \<^verbatim>\<open>E\<close>, an optional sign and at least one
  digit; anything else is not part of the numeral and the factor is 1.
\<close>

fun exponentFactor :: "string \<Rightarrow> rat" where
  "exponentFactor [] = 1"
| "exponentFactor (c # cs) =
     (if c = CHR ''e'' \<or> c = CHR ''E'' then
        (let (esign, r) = stripSign cs; ds = takeWhile isDigit r
         in if ds = [] then 1
            else if esign < 0 then 1 / 10 ^ digitsValue ds else 10 ^ digitsValue ds)
      else 1)"

definition parseFloatStr :: "string \<Rightarrow> number option" where
  "parseFloatStr inputString =
     (let (sign, S) = stripSign (dropWhile isWhiteSpace inputString);
          isInfinity = (take 8 S = ''Infinity'');
          intDigits = takeWhile isDigit S;
          afterInt = dropWhile isDigit S;
          hasDot = (afterInt \<noteq> [] \<and> hd afterInt = CHR ''.'');
          fracDigits = (if hasDot then takeWhile isDigit (tl afterInt) else []);
          afterFrac = (if hasDot then dropWhile isDigit (tl afterInt) else afterInt)
      in if isInfinity then Some (if sign < 0 then NInf else PInf)
         else if intDigits = [] \<and> fracDigits = [] then None
         else Some (round64 (sign *
                (of_nat (digitsValue intDigits) +
                 of_nat (digitsValue fracDigits) / 10 ^ length fracDigits) *
                exponentFactor afterFrac)))"

text \<open>
  On a value that is not a string the built-ins parse its string form. A finite number prints
  in plain decimal notation (for a magnitude below \<open>10\<^sup>2\<^sup>1\<close> and, unless it is zero, of at
  least \<open>10\<^sup>-\<^sup>6\<close>), of which \<^verbatim>\<open>parseInt\<close> reads the integer part and \<^verbatim>\<open>parseFloat\<close> all. An infinity
  prints as \<^verbatim>\<open>Infinity\<close>, which \<^verbatim>\<open>parseFloat\<close> reads and \<^verbatim>\<open>parseInt\<close> does not. An array prints its
  elements separated by commas, so the numeral read is that of the first element; every other
  value prints as a word that is no numeral.
\<close>

definition truncInt :: "rat \<Rightarrow> rat" where
  "truncInt q = (if 0 \<le> q then of_int \<lfloor>q\<rfloor> else of_int \<lceil>q\<rceil>)"

fun parseInt :: "jsval \<Rightarrow> number option" where
  "parseInt (JStr s) = parseIntStr s"
| "parseInt (JNum (Fin q)) = Some (Fin (truncInt q))"
| "parseInt (JArr (x # xs)) = parseInt x"
| "parseInt v = None"

fun parseFloat :: "jsval \<Rightarrow> number option" where
  "parseFloat (JStr s) = parseFloatStr s"
| "parseFloat (JNum x) = (if x = NaN then None else Some x)"
| "parseFloat (JArr (x # xs)) = parseFloat x"
| "parseFloat v = None"

section \<open>Utility helpers\<close>

definition toInt :: "jsval \<Rightarrow> number" where
  "toInt v = (case parseInt v of None \<Rightarrow> 0 | Some n \<Rightarrow> n)"

definition toFloat :: "jsval \<Rightarrow> number" where
  "toFloat v = (case parseFloat v of None \<Rightarrow> 0 | Some n \<Rightarrow> n)"

section \<open>Aggregate stats for a single team\<close>

text \<open>
  The summary object. Its \<open>totals\<close>, \<open>categoryPoints\<close> and \<open>categoryRanks\<close> are objects read
  and written by property name, hence maps. The summary of \<^verbatim>\<open>src/script.js\<close> has the first six
  fields only; the category-rank version adds the last two.
\<close>

record roster_summary =
  teamName :: jsval
  seasonId :: jsval
  players :: "jsval list"
  skaters :: "jsval list"
  goalies :: "jsval list"
  totals :: "string \<rightharpoonup> number"

record summary = roster_summary +
  categoryPoints :: "string \<rightharpoonup> number"
  categoryRanks :: "string \<rightharpoonup> number"

text \<open>The callbacks of the two \<^verbatim>\<open>players.filter\<close> calls.\<close>

definition isSkater :: "jsval \<Rightarrow> bool" where
  "isSkater p = (getProp p ''stats_position_group'' = JStr ''skater'' \<and> \<not> truthy (getProp p ''missing''))"

definition isGoalie :: "jsval \<Rightarrow> bool" where
  "isGoalie p = (getProp p ''stats_position_group'' = JStr ''goalie'' \<and> \<not> truthy (getProp p ''missing''))"

text \<open>
  \<^verbatim>\<open>players.filter(cb)\<close> with a callback that reads a property of the element: the read throws
  on an element that is null or undefined.
\<close>

fun filterPlayers :: "(jsval \<Rightarrow> bool) \<Rightarrow> jsval list \<Rightarrow> error + jsval list" where
  "filterPlayers cb [] = Inr []"
| "filterPlayers cb (p # ps) =
     (if nullish p then Inl TypeError
      else (case filterPlayers cb ps of
              Inl e \<Rightarrow> Inl e
            | Inr kept \<Rightarrow> Inr (if cb p then p # kept else kept)))"

text \<open>The seven running sums of the \<^verbatim>\<open>skaters.forEach\<close> loop, and its body.\<close>

record tally =
  goals :: number
  assists :: number
  powerPlayGoals :: number
  powerPlayAssists :: number
  hits :: number
  shots :: number
  penaltyMinutes :: number

definition tally0 :: tally where
  "tally0 = \<lparr>goals = 0, assists = 0, powerPlayGoals = 0, powerPlayAssists = 0, hits = 0,
     shots = 0, penaltyMinutes = 0\<rparr>"

definition addSkater :: "tally \<Rightarrow> jsval \<Rightarrow> tally" where
  "addSkater t p =
     \<lparr>goals = goals t + toInt (getProp p ''goals''),
      assists = assists t + toInt (getProp p ''assists''),
      powerPlayGoals = powerPlayGoals t + toInt (getProp p ''power_play_goals''),
      powerPlayAssists = powerPlayAssists t + toInt (getProp p ''power_play_assists''),
      hits = hits t + toInt (getProp p ''hits''),
      shots = shots t + toInt (getProp p ''shots''),
      penaltyMinutes = penaltyMinutes t + toInt (getProp p ''penalty_minutes'')\<rparr>"

definition tallySkaters :: "jsval list \<Rightarrow> tally" where
  "tallySkaters sk = foldl addSkater tally0 sk"

text \<open>
  The team-level goalie averages: a \<^verbatim>\<open>reduce\<close> call that adds the rates from 0, divided by the
  number of goalies; every addition and the division round.
\<close>

definition avgOver :: "string \<Rightarrow> jsval list \<Rightarrow> number" where
  "avgOver stat gs =
     (if length gs > 0
      then fdiv (foldl (\<lambda>sum g. fadd sum (toFloat (getProp g stat))) 0 gs)
             (Fin (of_nat (length gs)))
      else 0)"

text \<open>
  The players of the payload: \<^verbatim>\<open>teamJson.players || []\<close>, on which \<^verbatim>\<open>filter\<close> is then called.
  Reading a property of a null payload throws; so does calling \<^verbatim>\<open>filter\<close> on a truthy value that
  is not an array.
\<close>

definition payloadPlayers :: "jsval \<Rightarrow> error + jsval list" where
  "payloadPlayers teamJson =
     (if nullish teamJson then Inl TypeError
      else (case js_or (getProp teamJson ''players'') (JArr []) of
              JArr ps \<Rightarrow> Inr ps
            | _ \<Rightarrow> Inl TypeError))"

text \<open>\<^verbatim>\<open>computeTeamSummary(teamJson, overrideLabel)\<close> of the category-rank script.\<close>

definition computeTeamSummary :: "jsval \<Rightarrow> jsval \<Rightarrow> error + summary" where
  "computeTeamSummary teamJson overrideLabel =
     (case payloadPlayers teamJson of
        Inl e \<Rightarrow> Inl e
      | Inr ps \<Rightarrow>
        (case filterPlayers isSkater ps of
           Inl e \<Rightarrow> Inl e
         | Inr sk \<Rightarrow>
           (case filterPlayers isGoalie ps of
              Inl e \<Rightarrow> Inl e
            | Inr gs \<Rightarrow>
              (let t = tallySkaters sk;
                   avgSavePct = avgOver ''save_percentage'' gs;
                   avgGaa = avgOver ''goals_against_average'' gs;
                   powerPlayPoints = powerPlayGoals t + powerPlayAssists t
               in Inr \<lparr>teamName =
                          js_or (js_or overrideLabel (getProp teamJson ''team_name''))
                            (JStr ''Unnamed Team''),
                        seasonId = getProp teamJson ''season_id'',
                        players = ps,
                        skaters = sk,
                        goalies = gs,
                        totals = map_of
                          [(''goals'', goals t),
                           (''assists'', assists t),
                           (''powerPlayPoints'', powerPlayPoints),
                           (''hits'', hits t),
                           (''shots'', shots t),
                           (''penaltyMinutes'', penaltyMinutes t),
                           (''avgSavePct'', avgSavePct),
                           (''avgGaa'', avgGaa),
                           (''fantasyScore'', 0)],
                        categoryPoints = Map.empty,
                        categoryRanks = Map.empty\<rparr>))))"

text \<open>
  \<^verbatim>\<open>computeTeamSummary(teamJson)\<close> of \<^verbatim>\<open>src/script.js\<close>, the single-team script. It declares one
  parameter: a call passes it the first argument (\<^verbatim>\<open>undefined\<close> when there is none) and drops
  the others.
\<close>

definition script_computeTeamSummary :: "jsval \<Rightarrow> error + roster_summary" where
  "script_computeTeamSummary teamJson =
     (case payloadPlayers teamJson of
        Inl e \<Rightarrow> Inl e
      | Inr ps \<Rightarrow>
        (case filterPlayers isSkater ps of
           Inl e \<Rightarrow> Inl e
         | Inr sk \<Rightarrow>
           (case filterPlayers isGoalie ps of
              Inl e \<Rightarrow> Inl e
            | Inr gs \<Rightarrow>
              (let t = tallySkaters sk;
                   avgSavePct = avgOver ''save_percentage'' gs;
                   avgGaa = avgOver ''goals_against_average'' gs;
                   powerPlayPoints = powerPlayGoals t + powerPlayAssists t;
                   fantasyScore =
                     goals t + assists t + powerPlayPoints + hits t + shots t +
                     penaltyMinutes t + avgSavePct * 10 - avgGaa * 5
               in Inr \<lparr>teamName = js_or (getProp teamJson ''team_name'') (JStr ''Unnamed Team''),
                        seasonId = getProp teamJson ''season_id'',
                        players = ps,
                        skaters = sk,
                        goalies = gs,
                        totals = map_of
                          [(''goals'', goals t),
                           (''assists'', assists t),
                           (''powerPlayPoints'', powerPlayPoints),
                           (''powerPlayGoals'', powerPlayGoals t),
                           (''powerPlayAssists'', powerPlayAssists t),
                           (''hits'', hits t),
                           (''shots'', shots t),
                           (''penaltyMinutes'', penaltyMinutes t),
                           (''avgSavePct'', avgSavePct),
                           (''avgGaa'', avgGaa),
                           (''fantasyScore'', fantasyScore)]\<rparr>))))"

definition script_call :: "jsval list \<Rightarrow> error + roster_summary" where
  "script_call args = script_computeTeamSummary (case args of [] \<Rightarrow> JUndefined | a # rest \<Rightarrow> a)"

section \<open>Category-rank scoring\<close>

record category =
  key :: string
  field :: string
  label :: string
  higherIsBetter :: bool

definition CATEGORIES :: "category list" where
  "CATEGORIES =
     [\<lparr>key = ''goals'', field = ''goals'', label = ''Goals'', higherIsBetter = True\<rparr>,
      \<lparr>key = ''assists'', field = ''assists'', label = ''Assists'', higherIsBetter = True\<rparr>,
      \<lparr>key = ''ppPoints'', field = ''powerPlayPoints'', label = ''PP Points'', higherIsBetter = True\<rparr>,
      \<lparr>key = ''hits'', field = ''hits'', label = ''Hits'', higherIsBetter = True\<rparr>,
      \<lparr>key = ''shots'', field = ''shots'', label = ''Shots on Goal'', higherIsBetter = True\<rparr>,
      \<lparr>key = ''pim'', field = ''penaltyMinutes'', label = ''PIM'', higherIsBetter = True\<rparr>,
      \<lparr>key = ''savePct'', field = ''avgSavePct'', label = ''Save % (avg)'', higherIsBetter = True\<rparr>,
      \<lparr>key = ''gaa'', field = ''avgGaa'', label = ''GAA (avg)'', higherIsBetter = False\<rparr>]"

text \<open>
  The scorer mutates the summary objects of the array in place. The summaries are distinct
  objects, each with a \<open>totals\<close> object of its own, as \<^verbatim>\<open>computeTeamSummary\<close> creates them: the
  store is the list of the objects in the order of the array \<^verbatim>\<open>summaries\<close>, a reference to an
  object is its index, and the function returns the store after the call.
\<close>

text \<open>The body of the reset loop.\<close>

definition resetScores :: "summary \<Rightarrow> summary" where
  "resetScores team =
     team\<lparr>categoryPoints := Map.empty, categoryRanks := Map.empty,
          totals := (totals team)(''fantasyScore'' \<mapsto> 0)\<rparr>"

text \<open>\<^verbatim>\<open>a.totals[field] ?? 0\<close>\<close>

definition rawValue :: "category \<Rightarrow> summary \<Rightarrow> number" where
  "rawValue cat a = (case totals a (field cat) of None \<Rightarrow> 0 | Some v \<Rightarrow> v)"

text \<open>
  The comparator of the sort, on two references into the store. It is \<^verbatim>\<open>NaN\<close> when one of the
  two raw values is \<^verbatim>\<open>NaN\<close>, or both are the same infinity.
\<close>

definition compareTeams :: "category \<Rightarrow> summary list \<Rightarrow> nat \<Rightarrow> nat \<Rightarrow> number" where
  "compareTeams cat store a b =
     (let av = rawValue cat (store ! a); bv = rawValue cat (store ! b)
      in if higherIsBetter cat then bv - av else av - bv)"

text \<open>
  \<^verbatim>\<open>Array.prototype.sort\<close> reads a comparator result that is \<^verbatim>\<open>NaN\<close> as 0 (\<open>SortCompare\<close> of the
  language standard) and is a stable sort: for a comparator that is consistent (as the one
  above is when no raw value is \<^verbatim>\<open>NaN\<close>) the result is the one array in which \<open>a\<close> stands before
  \<open>b\<close> whenever the comparator is negative on them, or zero with \<open>a\<close> before \<open>b\<close> in the input.
  A stable insertion sort computes it. For an inconsistent comparator the standard leaves the
  order to the engine; the insertion sort then gives one order an engine may return.
\<close>

definition sortCompare :: "('a \<Rightarrow> 'a \<Rightarrow> number) \<Rightarrow> 'a \<Rightarrow> 'a \<Rightarrow> number" where
  "sortCompare comparefn x y = (let v = comparefn x y in if v = NaN then 0 else v)"

fun insertBy :: "('a \<Rightarrow> 'a \<Rightarrow> number) \<Rightarrow> 'a \<Rightarrow> 'a list \<Rightarrow> 'a list" where
  "insertBy cmp x [] = [x]"
| "insertBy cmp x (y # ys) =
     (if sortCompare cmp x y \<le> 0 then x # y # ys else y # insertBy cmp x ys)"

definition sortBy :: "('a \<Rightarrow> 'a \<Rightarrow> number) \<Rightarrow> 'a list \<Rightarrow> 'a list" where
  "sortBy cmp xs = foldr (insertBy cmp) xs []"

text \<open>The sorted copy \<^verbatim>\<open>[...summaries].sort(...)\<close>, as references.\<close>

definition sortedTeams :: "category \<Rightarrow> summary list \<Rightarrow> nat list" where
  "sortedTeams cat store = sortBy (compareTeams cat store) [0..<length store]"

text \<open>
  The body of \<^verbatim>\<open>sorted.forEach((team, idx) => ...)\<close>. After the reset loop \<open>fantasyScore\<close> is a
  number on every team; adding to an absent one gives \<^verbatim>\<open>NaN\<close>.
\<close>

definition award :: "category \<Rightarrow> number \<Rightarrow> number \<Rightarrow> summary \<Rightarrow> summary" where
  "award cat rank points team =
     team\<lparr>categoryRanks := (categoryRanks team)(key cat \<mapsto> rank),
          categoryPoints := (categoryPoints team)(key cat \<mapsto> points),
          totals := (totals team)(''fantasyScore'' \<mapsto>
                      (case totals team ''fantasyScore'' of
                         None \<Rightarrow> NaN
                       | Some score \<Rightarrow> score + points))\<rparr>"

fun assignRanks :: "category \<Rightarrow> nat \<Rightarrow> nat \<Rightarrow> nat list \<Rightarrow> summary list \<Rightarrow> summary list" where
  "assignRanks cat nTeams idx [] store = store"
| "assignRanks cat nTeams idx (team # rest) store =
     (let rank = Fin (of_nat idx + 1);
          points = Fin (of_nat nTeams - of_nat idx)
      in assignRanks cat nTeams (idx + 1) rest
           (store[team := award cat rank points (store ! team)]))"

text \<open>The body of \<^verbatim>\<open>CATEGORIES.forEach\<close>, and the function.\<close>

definition scoreCategory :: "nat \<Rightarrow> summary list \<Rightarrow> category \<Rightarrow> summary list" where
  "scoreCategory nTeams store cat = assignRanks cat nTeams 0 (sortedTeams cat store) store"

definition scoreCategories :: "nat \<Rightarrow> category list \<Rightarrow> summary list \<Rightarrow> summary list" where
  "scoreCategories nTeams cats store = foldl (scoreCategory nTeams) store cats"

definition applyCategoryRankScoring :: "summary list \<Rightarrow> summary list" where
  "applyCategoryRankScoring summaries =
     (let nTeams = length summaries
      in scoreCategories nTeams CATEGORIES (map resetScores summaries))"

section \<open>Vocabulary of the properties\<close>

text \<open>The position of an element in a list (of its first occurrence; the length if there is none).\<close>

fun indexOf :: "'a \<Rightarrow> 'a list \<Rightarrow> nat" where
  "indexOf x [] = 0"
| "indexOf x (y # ys) = (if x = y then 0 else Suc (indexOf x ys))"

text \<open>The position of team \<open>i\<close> in the sorted copy of a category.\<close>

definition position :: "category \<Rightarrow> summary list \<Rightarrow> nat \<Rightarrow> nat" where
  "position cat store i = indexOf i (sortedTeams cat store)"

text \<open>
  Team \<open>a\<close> is ahead of team \<open>b\<close>: the sort reads the comparator as negative on them, or it
  reads it as zero and \<open>a\<close> comes first in the array.
\<close>

definition ahead :: "category \<Rightarrow> summary list \<Rightarrow> nat \<Rightarrow> nat \<Rightarrow> bool" where
  "ahead cat store a b =
     (sortCompare (compareTeams cat store) a b < 0 \<or>
      (sortCompare (compareTeams cat store) a b = 0 \<and> a < b))"

text \<open>No raw value of the category is \<^verbatim>\<open>NaN\<close>: the comparator is then consistent.\<close>

definition noNaN :: "category \<Rightarrow> summary list \<Rightarrow> bool" where
  "noNaN cat store = (\<forall>j<length store. rawValue cat (store ! j) \<noteq> NaN)"

text \<open>
  The numbers other than \<^verbatim>\<open>NaN\<close> are linearly ordered; this key carries their order into a
  linear order, and the key of a team is that of its raw value, negated when higher is better.
\<close>

fun numKey :: "number \<Rightarrow> int \<times> rat" where
  "numKey NInf = (- 1, 0)"
| "numKey (Fin q) = (0, q)"
| "numKey PInf = (1, 0)"
| "numKey NaN = (2, 0)"

definition sortKey :: "category \<Rightarrow> summary list \<Rightarrow> nat \<Rightarrow> int \<times> rat" where
  "sortKey cat store a =
     (if higherIsBetter cat then numKey (- rawValue cat (store ! a))
      else numKey (rawValue cat (store ! a)))"



section \<open>Example inputs\<close>

definition examplePlayers :: "jsval list" where
  "examplePlayers =
     [JObj [(''stats_position_group'', JStr ''skater''), (''missing'', JBool False),
            (''goals'', JStr ''3''), (''assists'', JStr ''2''), (''power_play_goals'', JStr ''1''),
            (''power_play_assists'', JStr ''1''), (''hits'', JStr ''4''), (''shots'', JStr ''10''),
            (''penalty_minutes'', JStr ''2'')],
      JObj [(''stats_position_group'', JStr ''skater''), (''goals'', JNum 2),
            (''assists'', JStr ''n/a''), (''shots'', JStr ''7'')],
      JObj [(''stats_position_group'', JStr ''skater''), (''missing'', JBool True),
            (''goals'', JStr ''50'')],
      JObj [(''stats_position_group'', JStr ''goalie''), (''save_percentage'', JStr ''0.875''),
            (''goals_against_average'', JStr ''2.50'')],
      JObj [(''stats_position_group'', JStr ''goalie''), (''save_percentage'', JStr ''0.9375''),
            (''goals_against_average'', JStr ''2.25'')],
      JObj [(''stats_position_group'', JStr ''goalie''), (''missing'', JBool True),
            (''save_percentage'', JStr ''0.100'')]]"

definition examplePayload :: jsval where
  "examplePayload =
     JObj [(''team_name'', JStr ''Payload FC''), (''season_id'', JNum 5),
           (''players'', JArr examplePlayers)]"

definition teamOf :: "string \<Rightarrow> (string \<times> number) list \<Rightarrow> summary" where
  "teamOf name stats =
     \<lparr>teamName = JStr name, seasonId = JNum 5, players = [], skaters = [], goalies = [],
      totals = map_of stats, categoryPoints = [''goals'' \<mapsto> 99], categoryRanks = Map.empty\<rparr>"

definition exampleTeams :: "summary list" where
  "exampleTeams =
     [teamOf ''A'' [(''goals'', 10), (''avgGaa'', Fin (3 / 2)), (''fantasyScore'', 50)],
      teamOf ''B'' [(''goals'', 10), (''avgGaa'', 2)],
      teamOf ''C'' [(''goals'', 5), (''avgGaa'', 1)]]"



text \<open>Three teams of goalies only; the rates of the second average to \<^verbatim>\<open>NaN\<close>.\<close>

definition goaliePayload :: "string \<Rightarrow> (string \<times> string) list \<Rightarrow> jsval" where
  "goaliePayload name rates =
     JObj [(''team_name'', JStr name),
           (''players'', JArr (map (\<lambda>(sv, gaa).
              JObj [(''stats_position_group'', JStr ''goalie''), (''save_percentage'', JStr sv),
                    (''goals_against_average'', JStr gaa)]) rates))]"

definition steadyPayload :: jsval where
  "steadyPayload = goaliePayload ''Steady'' [(''0.5'', ''2.5'')]"

definition brokenPayload :: jsval where
  "brokenPayload =
     goaliePayload ''Broken'' [(''Infinity'', ''Infinity''), (''-Infinity'', ''-Infinity'')]"

definition sharpPayload :: jsval where
  "sharpPayload = goaliePayload ''Sharp'' [(''0.875'', ''1.5'')]"


section \<open>Numbers: auxiliary facts\<close>

lemma numeral_number: "(numeral k :: number) = Fin (numeral k)"
proof (induction k)
  case One
  show ?case by (simp add: one_number_def)
next
  case (Bit0 k)
  have "(numeral (num.Bit0 k) :: number) = numeral k + numeral k"
    by (simp only: numeral_Bit0)
  also have "\<dots> = Fin (numeral k + numeral k)"
    by (simp add: Bit0)
  also have "\<dots> = Fin (numeral (num.Bit0 k))"
    by (simp only: numeral_Bit0)
  finally show ?case .
next
  case (Bit1 k)
  have "(numeral (num.Bit1 k) :: number) = numeral k + numeral k + 1"
    by (simp only: numeral_Bit1)
  also have "\<dots> = Fin (numeral k + numeral k + 1)"
    by (simp add: Bit1 one_number_def)
  also have "\<dots> = Fin (numeral (num.Bit1 k))"
    by (simp only: numeral_Bit1)
  finally show ?case .
qed

lemmas number_eval = zero_number_def one_number_def numeral_number minus_number_def
  less_number_def

lemma le_numKey: "x \<noteq> NaN \<Longrightarrow> y \<noteq> NaN \<Longrightarrow> x \<le> y \<longleftrightarrow> numKey x \<le> numKey y"
  by (cases x; cases y) auto

lemma less_numKey: "x \<noteq> NaN \<Longrightarrow> y \<noteq> NaN \<Longrightarrow> x < y \<longleftrightarrow> numKey x < numKey y"
  by (cases x; cases y) (auto simp: less_number_def)

lemma numKey_eq_iff: "numKey x = numKey y \<longleftrightarrow> x = y"
  by (cases x; cases y) auto

lemma numKey_uminus: "x \<noteq> NaN \<Longrightarrow> y \<noteq> NaN \<Longrightarrow> numKey (- x) \<le> numKey (- y) \<longleftrightarrow> numKey y \<le> numKey x"
  by (cases x; cases y) auto

lemma uminus_eq_iff_number: "- x = - y \<longleftrightarrow> x = (y :: number)"
  by (cases x; cases y) auto

text \<open>The sign that the sort reads off a difference.\<close>

lemma sortCompare_diff:
  assumes "x \<noteq> NaN" and "y \<noteq> NaN"
  shows "(let v = y - x in if v = NaN then 0 else v) \<le> 0 \<longleftrightarrow> numKey y \<le> numKey x"
    and "(let v = y - x in if v = NaN then 0 else v) < 0 \<longleftrightarrow> numKey y < numKey x"
    and "(let v = y - x in if v = NaN then 0 else v) = 0 \<longleftrightarrow> y = x"
  using assms by (cases x; cases y; auto simp: number_eval)+

subsection \<open>Rounding\<close>

lemma pow2_powi: "pow2 k = 2 powi k"
  by (simp add: pow2_def power_int_def power_one_over inverse_eq_divide)

lemma pow2_pos: "0 < pow2 k"
  by (simp add: pow2_powi)

lemma pow2_add: "pow2 (i + j) = pow2 i * pow2 j"
  by (simp add: pow2_powi power_int_add)

lemma pow2_diff: "pow2 (i - j) = pow2 i / pow2 j"
  by (simp add: pow2_powi power_int_diff)

lemma pow2_less_iff: "pow2 i < pow2 j \<longleftrightarrow> i < j"
proof
  assume lt: "pow2 i < pow2 j"
  show "i < j"
  proof (rule ccontr)
    assume "\<not> i < j"
    then have "j \<le> i" by simp
    then have "(2::rat) powi j \<le> 2 powi i"
      by (intro power_int_increasing) simp_all
    with lt show False
      by (simp add: pow2_powi)
  qed
next
  assume "i < j"
  then have "(2::rat) powi i < 2 powi j"
    by (intro power_int_strict_increasing) simp_all
  then show "pow2 i < pow2 j"
    by (simp add: pow2_powi)
qed

lemma pow2_le_iff: "pow2 i \<le> pow2 j \<longleftrightarrow> i \<le> j"
  using pow2_less_iff [of j i] by (auto simp: not_less [symmetric])

lemma pow2_nat: "pow2 (int n) = 2 ^ n"
  by (simp add: pow2_def)

lemma bitLength_bounds: "0 < n \<Longrightarrow> 2 ^ (bitLength n - 1) \<le> n \<and> n < 2 ^ bitLength n"
proof (induction n rule: bitLength.induct)
  case (1 n)
  show ?case
  proof (cases "n div 2 = 0")
    case True
    with "1.prems" have "n = 1" by auto
    then show ?thesis by (simp add: bitLength.simps)
  next
    case False
    then have m: "0 < n div 2" by simp
    from "1.IH" [OF _ m] "1.prems"
    have IH: "2 ^ (bitLength (n div 2) - 1) \<le> n div 2" "n div 2 < 2 ^ bitLength (n div 2)"
      by simp_all
    have pos: "0 < bitLength (n div 2)"
      using m by (subst bitLength.simps) simp
    have eq: "bitLength n = Suc (bitLength (n div 2))"
      using "1.prems" by (subst bitLength.simps) simp
    have "2 ^ bitLength (n div 2) = 2 * 2 ^ (bitLength (n div 2) - 1)"
      using pos by (cases "bitLength (n div 2)") simp_all
    also have "\<dots> \<le> 2 * (n div 2)"
      using IH(1) by simp
    also have "\<dots> \<le> n"
      by simp
    finally have lower: "2 ^ bitLength (n div 2) \<le> n" .
    have "n < 2 * (n div 2) + 2"
      by linarith
    also have "\<dots> \<le> 2 * 2 ^ bitLength (n div 2)"
      using IH(2) by simp
    finally have upper: "n < 2 ^ Suc (bitLength (n div 2))"
      by simp
    from lower upper show ?thesis
      by (simp only: eq diff_Suc_1)
  qed
qed

lemma bitLength_pos: "0 < n \<Longrightarrow> 0 < bitLength n"
  by (subst bitLength.simps) simp

lemma floorLog2_bounds:
  assumes "0 < a"
  shows "pow2 (floorLog2 a) \<le> a \<and> a < pow2 (floorLog2 a + 1)"
proof -
  obtain p q where pq: "quotient_of a = (p, q)"
    by (cases "quotient_of a")
  then have q: "0 < q" and a: "a = of_int p / of_int q"
    by (simp_all add: quotient_of_denom_pos quotient_of_div)
  with assms have p: "0 < p"
    by (simp add: zero_less_divide_iff)
  define P Q where "P = nat p" and "Q = nat q"
  have PQ: "0 < P" "0 < Q" "of_int p = (of_nat P :: rat)" "of_int q = (of_nat Q :: rat)"
    using p q by (simp_all add: P_def Q_def)
  define k where "k = int (bitLength P) - int (bitLength Q)"
  have bP: "(2::rat) ^ (bitLength P - 1) \<le> of_nat P" "(of_nat P :: rat) < 2 ^ bitLength P"
    using bitLength_bounds [OF PQ(1)]
    by (metis of_nat_le_iff of_nat_numeral of_nat_power, metis of_nat_less_iff of_nat_numeral of_nat_power)
  have bQ: "(2::rat) ^ (bitLength Q - 1) \<le> of_nat Q" "(of_nat Q :: rat) < 2 ^ bitLength Q"
    using bitLength_bounds [OF PQ(2)]
    by (metis of_nat_le_iff of_nat_numeral of_nat_power, metis of_nat_less_iff of_nat_numeral of_nat_power)
  have lP: "int (bitLength P - 1) = int (bitLength P) - 1" and lQ: "int (bitLength Q - 1) = int (bitLength Q) - 1"
    using bitLength_pos [OF PQ(1)] bitLength_pos [OF PQ(2)] by simp_all
  have "a < 2 ^ bitLength P / 2 ^ (bitLength Q - 1)"
    unfolding a PQ(3,4) by (rule frac_less) (use bP bQ in simp_all)
  also have "\<dots> = pow2 (int (bitLength P) - int (bitLength Q - 1))"
    by (simp add: pow2_diff pow2_nat)
  also have "\<dots> = pow2 (k + 1)"
  proof -
    have "int (bitLength P) - int (bitLength Q - 1) = k + 1"
      unfolding k_def lQ by simp
    then show ?thesis
      by (simp only:)
  qed
  finally have upper: "a < pow2 (k + 1)" .
  have "k - 1 = int (bitLength P - 1) - int (bitLength Q)"
    unfolding k_def lP by simp
  then have "pow2 (k - 1) = 2 ^ (bitLength P - 1) / 2 ^ bitLength Q"
    by (simp only: pow2_diff pow2_nat)
  also have "\<dots> < of_nat P / of_nat Q"
    by (rule frac_less2) (use bP bQ PQ in simp_all)
  finally have lower: "pow2 (k - 1) < a"
    by (simp add: a PQ)
  have fl: "floorLog2 a = (if pow2 k \<le> a then k else k - 1)"
    by (simp add: floorLog2_def pq k_def P_def Q_def Let_def)
  show ?thesis
  proof (cases "pow2 k \<le> a")
    case True
    with upper fl show ?thesis by simp
  next
    case False
    with lower fl show ?thesis by simp
  qed
qed

lemma floorLog2_unique:
  assumes "0 < a" and "pow2 e \<le> a" and "a < pow2 (e + 1)"
  shows "floorLog2 a = e"
proof -
  from floorLog2_bounds [OF assms(1)]
  have b: "pow2 (floorLog2 a) \<le> a" "a < pow2 (floorLog2 a + 1)"
    by simp_all
  from assms(2) b(2) have "pow2 e < pow2 (floorLog2 a + 1)"
    by simp
  moreover from b(1) assms(3) have "pow2 (floorLog2 a) < pow2 (e + 1)"
    by simp
  ultimately show ?thesis
    by (simp add: pow2_less_iff)
qed

lemma roundHalfEven_near:
  assumes "\<bar>x - of_int m\<bar> < 1 / 2"
  shows "roundHalfEven x = m"
proof (cases "of_int m \<le> x")
  case True
  with assms have "\<lfloor>x\<rfloor> = m"
    by (intro floor_unique) (simp_all add: abs_less_iff)
  with True assms show ?thesis
    by (simp add: roundHalfEven_def Let_def abs_less_iff)
next
  case False
  with assms have "\<lfloor>x\<rfloor> = m - 1"
    by (intro floor_unique) (simp_all add: abs_less_iff)
  with False assms show ?thesis
    by (simp add: roundHalfEven_def Let_def abs_less_iff)
qed

lemma roundHalfEven_tie:
  assumes "\<bar>x - of_int m\<bar> = 1 / 2" and "even m"
  shows "roundHalfEven x = m"
proof (cases "of_int m \<le> x")
  case True
  with assms(1) have x: "x = of_int m + 1 / 2"
    by simp
  then have "\<lfloor>x\<rfloor> = m"
    by (intro floor_unique) simp_all
  with x assms(2) show ?thesis
    by (simp add: roundHalfEven_def Let_def)
next
  case False
  with assms(1) have x: "x = of_int m - 1 / 2"
    by simp
  then have "\<lfloor>x\<rfloor> = m - 1"
    by (intro floor_unique) simp_all
  with x assms(2) show ?thesis
    by (simp add: roundHalfEven_def Let_def)
qed

text \<open>
  A certificate for a rounding: the exponent \<open>e\<close> and the significand \<open>m\<close>, which is the nearest
  integer to the scaled number, or the even one of the two nearest.
\<close>

lemma round64_cert:
  assumes "0 < q" and "pow2 e \<le> q" and "q < pow2 (e + 1)" and "- 1022 \<le> e"
    and "\<bar>q / pow2 (e - 52) - of_int m\<bar> < 1 / 2 \<or>
         \<bar>q / pow2 (e - 52) - of_int m\<bar> = 1 / 2 \<and> even m"
    and "of_int m * pow2 (e - 52) < pow2 1024"
  shows "round64 q = Fin (of_int m * pow2 (e - 52))"
proof -
  have "floorLog2 \<bar>q\<bar> = e"
    using assms(1,2,3) by (intro floorLog2_unique) simp_all
  moreover have "roundHalfEven (\<bar>q\<bar> / pow2 (e - 52)) = m"
    using assms(1,5) roundHalfEven_near [of "q / pow2 (e - 52)" m]
      roundHalfEven_tie [of "q / pow2 (e - 52)" m] by auto
  moreover have "max e (- 1022) = e"
    using assms(4) by simp
  ultimately have "round64 q =
      (if pow2 1024 \<le> of_int m * pow2 (e - 52) then PInf else Fin (of_int m * pow2 (e - 52)))"
    using assms(1) by (simp add: round64_def Let_def)
  with assms(6) show ?thesis
    by simp
qed

lemma round64_exact:
  assumes "0 < q" and "pow2 e \<le> q" and "q < pow2 (e + 1)" and "- 1022 \<le> e" and "e \<le> 1023"
    and "q / pow2 (e - 52) = of_int m"
  shows "round64 q = Fin q"
proof -
  have q: "q = of_int m * pow2 (e - 52)"
    using assms(6) pow2_pos [of "e - 52"] by (simp add: field_simps)
  have "q < pow2 1024"
    using assms(3,5) pow2_le_iff [of "e + 1" 1024] by simp
  then have "round64 q = Fin (of_int m * pow2 (e - 52))"
    using assms by (intro round64_cert) (simp_all flip: q)
  then show ?thesis
    by (simp flip: q)
qed


lemma Fin_le: "Fin a \<le> Fin b \<longleftrightarrow> a \<le> b"
  by simp


section \<open>The summarizer: auxiliary facts\<close>

lemma filterPlayers_Inr: "filterPlayers cb ps = Inr kept \<Longrightarrow> kept = filter cb ps"
  by (induction ps arbitrary: kept) (auto split: if_splits sum.splits)

lemma filterPlayers_total: "\<forall>p \<in> set ps. \<not> nullish p \<Longrightarrow> filterPlayers cb ps = Inr (filter cb ps)"
  by (induction ps) auto



lemma avgOver_foldl:
  "avgOver stat gs =
     (if gs = [] then 0
      else fdiv (foldl fadd 0 (map (\<lambda>g. toFloat (getProp g stat)) gs)) (Fin (of_nat (length gs))))"
  by (simp add: avgOver_def foldl_map)




lemma computeTeamSummary_Inr:
  assumes "computeTeamSummary teamJson overrideLabel = Inr s"
  shows "payloadPlayers teamJson = Inr (players s)"
    and "skaters s = filter isSkater (players s)"
    and "goalies s = filter isGoalie (players s)"
    and "teamName s = js_or (js_or overrideLabel (getProp teamJson ''team_name'')) (JStr ''Unnamed Team'')"
    and "seasonId s = getProp teamJson ''season_id''"
    and "categoryPoints s = Map.empty"
    and "categoryRanks s = Map.empty"
    and "totals s = map_of
           [(''goals'', goals (tallySkaters (skaters s))),
            (''assists'', assists (tallySkaters (skaters s))),
            (''powerPlayPoints'', powerPlayGoals (tallySkaters (skaters s)) + powerPlayAssists (tallySkaters (skaters s))),
            (''hits'', hits (tallySkaters (skaters s))),
            (''shots'', shots (tallySkaters (skaters s))),
            (''penaltyMinutes'', penaltyMinutes (tallySkaters (skaters s))),
            (''avgSavePct'', avgOver ''save_percentage'' (goalies s)),
            (''avgGaa'', avgOver ''goals_against_average'' (goalies s)),
            (''fantasyScore'', 0)]"
  using assms
  by (auto simp: computeTeamSummary_def Let_def dest!: filterPlayers_Inr split: sum.splits)

lemma script_computeTeamSummary_Inr:
  assumes "script_computeTeamSummary teamJson = Inr s"
  shows "payloadPlayers teamJson = Inr (players s)"
    and "skaters s = filter isSkater (players s)"
    and "goalies s = filter isGoalie (players s)"
    and "teamName s = js_or (getProp teamJson ''team_name'') (JStr ''Unnamed Team'')"
    and "totals s = map_of
           [(''goals'', goals (tallySkaters (skaters s))),
            (''assists'', assists (tallySkaters (skaters s))),
            (''powerPlayPoints'', powerPlayGoals (tallySkaters (skaters s)) + powerPlayAssists (tallySkaters (skaters s))),
            (''powerPlayGoals'', powerPlayGoals (tallySkaters (skaters s))),
            (''powerPlayAssists'', powerPlayAssists (tallySkaters (skaters s))),
            (''hits'', hits (tallySkaters (skaters s))),
            (''shots'', shots (tallySkaters (skaters s))),
            (''penaltyMinutes'', penaltyMinutes (tallySkaters (skaters s))),
            (''avgSavePct'', avgOver ''save_percentage'' (goalies s)),
            (''avgGaa'', avgOver ''goals_against_average'' (goalies s)),
            (''fantasyScore'',
               goals (tallySkaters (skaters s)) + assists (tallySkaters (skaters s)) +
               (powerPlayGoals (tallySkaters (skaters s)) + powerPlayAssists (tallySkaters (skaters s))) +
               hits (tallySkaters (skaters s)) + shots (tallySkaters (skaters s)) +
               penaltyMinutes (tallySkaters (skaters s)) +
               avgOver ''save_percentage'' (goalies s) * 10 -
               avgOver ''goals_against_average'' (goalies s) * 5)]"
  using assms
  by (auto simp: script_computeTeamSummary_def Let_def dest!: filterPlayers_Inr split: sum.splits)

lemma computeTeamSummary_total:
  assumes "payloadPlayers teamJson = Inr ps" and "\<forall>p \<in> set ps. \<not> nullish p"
  shows "\<exists>s. computeTeamSummary teamJson overrideLabel = Inr s"
  using assms by (simp add: computeTeamSummary_def filterPlayers_total Let_def)

lemma script_computeTeamSummary_total:
  assumes "payloadPlayers teamJson = Inr ps" and "\<forall>p \<in> set ps. \<not> nullish p"
  shows "\<exists>s. script_computeTeamSummary teamJson = Inr s"
  using assms by (simp add: script_computeTeamSummary_def filterPlayers_total Let_def)

lemma examplePayload_players: "payloadPlayers examplePayload = Inr examplePlayers"
  by (simp add: payloadPlayers_def examplePayload_def nullish_def js_or_def)

lemma examplePlayers_ok: "\<forall>p \<in> set examplePlayers. \<not> nullish p"
  by (simp add: examplePlayers_def nullish_def)

lemmas parse_eval = toInt_def toFloat_def parseIntStr_def parseFloatStr_def isWhiteSpace_def
  isDigit_def digitValue_def digitsValue_def





lemma goaliePayload_players:
  "payloadPlayers (goaliePayload name rates) =
     Inr (map (\<lambda>(sv, gaa).
            JObj [(''stats_position_group'', JStr ''goalie''), (''save_percentage'', JStr sv),
                  (''goals_against_average'', JStr gaa)]) rates)"
  by (cases rates) (simp_all add: payloadPlayers_def goaliePayload_def nullish_def js_or_def)

lemma goaliePayload_total: "\<exists>s. computeTeamSummary (goaliePayload name rates) overrideLabel = Inr s"
  by (rule computeTeamSummary_total [OF goaliePayload_players]) (auto simp: nullish_def)

lemma goaliePayload_goalies:
  assumes "computeTeamSummary (goaliePayload name rates) overrideLabel = Inr s"
  shows "filter isGoalie (players s) =
     map (\<lambda>(sv, gaa).
            JObj [(''stats_position_group'', JStr ''goalie''), (''save_percentage'', JStr sv),
                  (''goals_against_average'', JStr gaa)]) rates"
proof -
  from computeTeamSummary_Inr(1) [OF assms] have "players s =
     map (\<lambda>(sv, gaa).
            JObj [(''stats_position_group'', JStr ''goalie''), (''save_percentage'', JStr sv),
                  (''goals_against_average'', JStr gaa)]) rates"
    by (simp add: goaliePayload_players)
  then show ?thesis
    by (simp add: filter_map o_def isGoalie_def split_def)
qed





lemma toInt_examples:
  "toInt (JStr ''42'') = 42" "toInt (JStr '' 12abc'') = 12" "toInt (JStr ''-7.9'') = Fin (- 7)"
  "toInt (JStr ''abc'') = 0" "toInt (JStr []) = 0" "toInt JUndefined = 0" "toInt JNull = 0"
  "toInt (JNum 3) = 3" "toInt (JNum PInf) = 0" "toInt (JNum NaN) = 0" "toInt (JBool True) = 0"
  "toInt (JArr [JStr ''5'', JStr ''6'']) = 5"
  by (simp_all add: parse_eval truncInt_def number_eval)

text \<open>Some doubles, and decimal fractions that are none.\<close>

lemma round64_dyadic:
  "round64 (1 / 2) = Fin (1 / 2)" "round64 (7 / 8) = Fin (7 / 8)"
  "round64 (15 / 16) = Fin (15 / 16)" "round64 (29 / 16) = Fin (29 / 16)"
  "round64 (29 / 32) = Fin (29 / 32)" "round64 (3 / 2) = Fin (3 / 2)"
  "round64 (5 / 2) = Fin (5 / 2)" "round64 (9 / 4) = Fin (9 / 4)"
  "round64 (19 / 4) = Fin (19 / 4)" "round64 (19 / 8) = Fin (19 / 8)"
proof -
  show "round64 (1 / 2) = Fin (1 / 2)"
    by (rule round64_exact [where e = "- 1" and m = 4503599627370496]) (simp_all add: pow2_def)
  show "round64 (7 / 8) = Fin (7 / 8)"
    by (rule round64_exact [where e = "- 1" and m = 7881299347898368]) (simp_all add: pow2_def)
  show "round64 (15 / 16) = Fin (15 / 16)"
    by (rule round64_exact [where e = "- 1" and m = 8444249301319680]) (simp_all add: pow2_def)
  show "round64 (29 / 16) = Fin (29 / 16)"
    by (rule round64_exact [where e = 0 and m = 8162774324609024]) (simp_all add: pow2_def)
  show "round64 (29 / 32) = Fin (29 / 32)"
    by (rule round64_exact [where e = "- 1" and m = 8162774324609024]) (simp_all add: pow2_def)
  show "round64 (3 / 2) = Fin (3 / 2)"
    by (rule round64_exact [where e = 0 and m = 6755399441055744]) (simp_all add: pow2_def)
  show "round64 (5 / 2) = Fin (5 / 2)"
    by (rule round64_exact [where e = 1 and m = 5629499534213120]) (simp_all add: pow2_def)
  show "round64 (9 / 4) = Fin (9 / 4)"
    by (rule round64_exact [where e = 1 and m = 5066549580791808]) (simp_all add: pow2_def)
  show "round64 (19 / 4) = Fin (19 / 4)"
    by (rule round64_exact [where e = 2 and m = 5348024557502464]) (simp_all add: pow2_def)
  show "round64 (19 / 8) = Fin (19 / 8)"
    by (rule round64_exact [where e = 1 and m = 5348024557502464]) (simp_all add: pow2_def)
qed

lemma round64_tenths:
  "round64 (1 / 10) = Fin (3602879701896397 / 36028797018963968)"
  "round64 (1 / 5) = Fin (3602879701896397 / 18014398509481984)"
  "round64 (3 / 10) = Fin (5404319552844595 / 18014398509481984)"
  "round64 (3602879701896397 / 36028797018963968) = Fin (3602879701896397 / 36028797018963968)"
  "round64 (10808639105689191 / 36028797018963968) = Fin (1351079888211149 / 4503599627370496)"
  "round64 (10808639105689191 / 18014398509481984) = Fin (1351079888211149 / 2251799813685248)"
  "round64 (1351079888211149 / 6755399441055744) = Fin (7205759403792795 / 36028797018963968)"
proof -
  show "round64 (1 / 10) = Fin (3602879701896397 / 36028797018963968)"
    using round64_cert [of "1 / 10" "- 4" 7205759403792794] by (simp add: pow2_def)
  show "round64 (1 / 5) = Fin (3602879701896397 / 18014398509481984)"
    using round64_cert [of "1 / 5" "- 3" 7205759403792794] by (simp add: pow2_def)
  show "round64 (3 / 10) = Fin (5404319552844595 / 18014398509481984)"
    using round64_cert [of "3 / 10" "- 2" 5404319552844595] by (simp add: pow2_def)
  show "round64 (3602879701896397 / 36028797018963968) = Fin (3602879701896397 / 36028797018963968)"
    by (rule round64_exact [where e = "- 4" and m = 7205759403792794]) (simp_all add: pow2_def)
  show "round64 (10808639105689191 / 36028797018963968) = Fin (1351079888211149 / 4503599627370496)"
    using round64_cert [of "10808639105689191 / 36028797018963968" "- 2" 5404319552844596]
    by (simp add: pow2_def)
  show "round64 (10808639105689191 / 18014398509481984) = Fin (1351079888211149 / 2251799813685248)"
    using round64_cert [of "10808639105689191 / 18014398509481984" "- 1" 5404319552844596]
    by (simp add: pow2_def)
  show "round64 (1351079888211149 / 6755399441055744) = Fin (7205759403792795 / 36028797018963968)"
    using round64_cert [of "1351079888211149 / 6755399441055744" "- 3" 7205759403792795]
    by (simp add: pow2_def)
qed

lemma round64_zero: "round64 0 = Fin 0"
  by (simp add: round64_def)

lemma toFloat_examples:
  "toFloat (JStr ''0.875'') = Fin (7 / 8)" "toFloat (JStr ''2.50'') = Fin (5 / 2)"
  "toFloat (JStr ''0.1'') = Fin (3602879701896397 / 36028797018963968)"
  "toFloat (JStr ''Infinity'') = PInf" "toFloat (JStr ''-Infinity'') = NInf"
  "toFloat (JStr ''infinity'') = 0"
  "toFloat (JStr ''.5'') = Fin (1 / 2)" "toFloat (JStr ''1.5e0x'') = Fin (3 / 2)"
  "toFloat (JStr ''.'') = 0"
  "toFloat (JStr ''n/a'') = 0" "toFloat JUndefined = 0" "toFloat JNull = 0"
  "toFloat (JNum NaN) = 0" "toFloat (JNum PInf) = PInf"
  by (simp_all add: parse_eval round64_dyadic round64_tenths round64_zero number_eval)

text \<open>The goalie averages of the teams of goalies.\<close>

lemma goaliePayload_averages:
  assumes "computeTeamSummary (goaliePayload name rates) overrideLabel = Inr s"
  shows "totals s ''avgSavePct'' =
      Some (if rates = [] then 0
            else fdiv (foldl fadd 0 (map (\<lambda>(sv, gaa). toFloat (JStr sv)) rates))
                   (Fin (of_nat (length rates))))"
    and "totals s ''avgGaa'' =
      Some (if rates = [] then 0
            else fdiv (foldl fadd 0 (map (\<lambda>(sv, gaa). toFloat (JStr gaa)) rates))
                   (Fin (of_nat (length rates))))"
proof -
  note facts = computeTeamSummary_Inr [OF assms]
  have gs: "goalies s =
     map (\<lambda>(sv, gaa).
            JObj [(''stats_position_group'', JStr ''goalie''), (''save_percentage'', JStr sv),
                  (''goals_against_average'', JStr gaa)]) rates"
    using goaliePayload_goalies [OF assms] by (simp add: facts(3))
  show "totals s ''avgSavePct'' =
      Some (if rates = [] then 0
            else fdiv (foldl fadd 0 (map (\<lambda>(sv, gaa). toFloat (JStr sv)) rates))
                   (Fin (of_nat (length rates))))"
    by (simp add: facts(8) avgOver_foldl gs o_def split_def)
  show "totals s ''avgGaa'' =
      Some (if rates = [] then 0
            else fdiv (foldl fadd 0 (map (\<lambda>(sv, gaa). toFloat (JStr gaa)) rates))
                   (Fin (of_nat (length rates))))"
    by (simp add: facts(8) avgOver_foldl gs o_def split_def)
qed

lemma steady_broken_sharp:
  assumes "computeTeamSummary steadyPayload JUndefined = Inr a"
    and "computeTeamSummary brokenPayload JUndefined = Inr b"
    and "computeTeamSummary sharpPayload JUndefined = Inr c"
  shows "map (\<lambda>s. totals s ''avgSavePct'') [a, b, c] = [Some (Fin (1 / 2)), Some NaN, Some (Fin (7 / 8))]"
    and "map (\<lambda>s. totals s ''avgGaa'') [a, b, c] = [Some (Fin (5 / 2)), Some NaN, Some (Fin (3 / 2))]"
  using goaliePayload_averages [OF assms(1) [unfolded steadyPayload_def]]
    goaliePayload_averages [OF assms(2) [unfolded brokenPayload_def]]
    goaliePayload_averages [OF assms(3) [unfolded sharpPayload_def]]
  by (simp_all add: parse_eval fadd_def round64_dyadic number_eval)

section \<open>The scorer: auxiliary facts\<close>

subsection \<open>Positions in a list\<close>

lemma indexOf_less: "x \<in> set xs \<Longrightarrow> indexOf x xs < length xs"
  by (induction xs) auto

lemma nth_indexOf: "x \<in> set xs \<Longrightarrow> xs ! indexOf x xs = x"
  by (induction xs) auto

lemma indexOf_nth: "distinct xs \<Longrightarrow> p < length xs \<Longrightarrow> indexOf (xs ! p) xs = p"
proof (induction xs arbitrary: p)
  case Nil
  then show ?case by simp
next
  case (Cons y ys)
  then show ?case by (cases p) auto
qed

lemma indexOf_eqD:
  "x \<in> set xs \<Longrightarrow> indexOf x xs = indexOf y xs \<Longrightarrow> x = y"
  by (induction xs) (auto split: if_splits)

subsection \<open>The stable sort\<close>

lemma set_insertBy: "set (insertBy cmp x ys) = insert x (set ys)"
  by (induction ys) auto

lemma length_insertBy: "length (insertBy cmp x ys) = Suc (length ys)"
  by (induction ys) auto

lemma distinct_insertBy: "distinct (insertBy cmp x ys) = (x \<notin> set ys \<and> distinct ys)"
  by (induction ys) (auto simp: set_insertBy)

lemma set_sortBy: "set (sortBy cmp xs) = set xs"
  unfolding sortBy_def by (induction xs) (simp_all add: set_insertBy)

lemma length_sortBy: "length (sortBy cmp xs) = length xs"
  unfolding sortBy_def by (induction xs) (simp_all add: length_insertBy)

lemma distinct_sortBy: "distinct (sortBy cmp xs) = distinct xs"
  unfolding sortBy_def by (induction xs) (simp_all add: distinct_insertBy set_sortBy [unfolded sortBy_def])

lemma insertBy_cong:
  "\<forall>b \<in> set ys. cmp x b = cmp' x b \<Longrightarrow> insertBy cmp x ys = insertBy cmp' x ys"
  by (induction ys) (auto simp: sortCompare_def)

lemma sortBy_cong:
  "\<forall>a \<in> set xs. \<forall>b \<in> set xs. cmp a b = cmp' a b \<Longrightarrow> sortBy cmp xs = sortBy cmp' xs"
proof (induction xs)
  case Nil
  then show ?case by (simp add: sortBy_def)
next
  case (Cons x xs)
  have rest: "sortBy cmp xs = sortBy cmp' xs"
    using Cons by simp
  have "insertBy cmp x (sortBy cmp' xs) = insertBy cmp' x (sortBy cmp' xs)"
    by (rule insertBy_cong) (use Cons.prems in \<open>simp add: set_sortBy\<close>)
  with rest show ?case
    by (simp add: sortBy_def)
qed

text \<open>
  With a comparator whose sign, as the sort reads it, follows a key in a linear order, the
  result is ordered by key, then by the order of the input.
\<close>

lemma sorted_insertBy:
  fixes k :: "nat \<Rightarrow> 'k::linorder"
  assumes "sorted_wrt (\<lambda>a b. k a < k b \<or> (k a = k b \<and> a < b)) ys"
    and "\<forall>y \<in> set ys. x < y"
    and "\<forall>y \<in> set ys. (sortCompare cmp x y \<le> 0) = (k x \<le> k y)"
  shows "sorted_wrt (\<lambda>a b. k a < k b \<or> (k a = k b \<and> a < b)) (insertBy cmp x ys)"
  using assms
proof (induction ys)
  case Nil
  then show ?case by simp
next
  case (Cons y ys)
  show ?case
  proof (cases "sortCompare cmp x y \<le> 0")
    case True
    then have "k x \<le> k y" using Cons.prems(3) by simp
    moreover have "\<forall>z \<in> set ys. k y \<le> k z"
      using Cons.prems(1) by auto
    ultimately have "\<forall>z \<in> set (y # ys). k x < k z \<or> (k x = k z \<and> x < z)"
      using Cons.prems(2) by fastforce
    with True Cons.prems(1) show ?thesis by simp
  next
    case False
    then have "k y < k x" using Cons.prems(3) by simp
    moreover have "sorted_wrt (\<lambda>a b. k a < k b \<or> (k a = k b \<and> a < b)) (insertBy cmp x ys)"
      using Cons by simp
    ultimately show ?thesis
      using False Cons.prems(1) by (auto simp: set_insertBy)
  qed
qed

lemma sorted_sortBy:
  fixes k :: "nat \<Rightarrow> 'k::linorder"
  assumes "sorted_wrt (<) xs"
    and "\<forall>a \<in> set xs. \<forall>b \<in> set xs. (sortCompare cmp a b \<le> 0) = (k a \<le> k b)"
  shows "sorted_wrt (\<lambda>a b. k a < k b \<or> (k a = k b \<and> a < b)) (sortBy cmp xs)"
  using assms
proof (induction xs)
  case Nil
  then show ?case by (simp add: sortBy_def)
next
  case (Cons x xs)
  have "sorted_wrt (\<lambda>a b. k a < k b \<or> (k a = k b \<and> a < b)) (insertBy cmp x (sortBy cmp xs))"
    by (rule sorted_insertBy) (use Cons in \<open>auto simp: set_sortBy\<close>)
  then show ?case by (simp add: sortBy_def)
qed

subsection \<open>The sorted copy of the teams\<close>

text \<open>On raw values other than \<^verbatim>\<open>NaN\<close> the sort reads the comparator as the order of the keys.\<close>

lemma compareTeams_sortKey:
  assumes "rawValue cat (store ! a) \<noteq> NaN" and "rawValue cat (store ! b) \<noteq> NaN"
  shows "sortCompare (compareTeams cat store) a b \<le> 0 \<longleftrightarrow> sortKey cat store a \<le> sortKey cat store b"
    and "sortCompare (compareTeams cat store) a b < 0 \<longleftrightarrow> sortKey cat store a < sortKey cat store b"
    and "sortCompare (compareTeams cat store) a b = 0 \<longleftrightarrow> sortKey cat store a = sortKey cat store b"
  using assms
  by (cases "rawValue cat (store ! a)"; cases "rawValue cat (store ! b)";
      auto simp: sortCompare_def compareTeams_def sortKey_def Let_def number_eval)+

lemma ahead_sortKey:
  assumes "rawValue cat (store ! a) \<noteq> NaN" and "rawValue cat (store ! b) \<noteq> NaN"
  shows "ahead cat store a b =
     (sortKey cat store a < sortKey cat store b \<or> (sortKey cat store a = sortKey cat store b \<and> a < b))"
  by (simp add: ahead_def compareTeams_sortKey [OF assms])

lemma ahead_raw:
  assumes "rawValue cat (store ! a) \<noteq> NaN" and "rawValue cat (store ! b) \<noteq> NaN"
  shows "ahead cat store a b =
     (if higherIsBetter cat
      then numKey (rawValue cat (store ! b)) < numKey (rawValue cat (store ! a)) \<or>
           (numKey (rawValue cat (store ! b)) = numKey (rawValue cat (store ! a)) \<and> a < b)
      else numKey (rawValue cat (store ! a)) < numKey (rawValue cat (store ! b)) \<or>
           (numKey (rawValue cat (store ! a)) = numKey (rawValue cat (store ! b)) \<and> a < b))"
  using assms
  by (cases "rawValue cat (store ! a)"; cases "rawValue cat (store ! b)";
      auto simp: ahead_def sortCompare_def compareTeams_def Let_def number_eval)

lemma set_sortedTeams: "set (sortedTeams cat store) = {0..<length store}"
  by (simp add: sortedTeams_def set_sortBy)

lemma length_sortedTeams: "length (sortedTeams cat store) = length store"
  by (simp add: sortedTeams_def length_sortBy)

lemma distinct_sortedTeams: "distinct (sortedTeams cat store)"
  by (simp add: sortedTeams_def distinct_sortBy)

lemma sorted_sortedTeams:
  assumes "noNaN cat store"
  shows "sorted_wrt (ahead cat store) (sortedTeams cat store)"
proof -
  have nn: "rawValue cat (store ! a) \<noteq> NaN" if "a < length store" for a
    using assms that by (simp add: noNaN_def)
  have "sorted_wrt (\<lambda>a b. sortKey cat store a < sortKey cat store b \<or>
           (sortKey cat store a = sortKey cat store b \<and> a < b))
          (sortBy (compareTeams cat store) [0..<length store])"
    by (rule sorted_sortBy) (simp_all add: compareTeams_sortKey nn)
  then have "sorted_wrt (ahead cat store) (sortBy (compareTeams cat store) [0..<length store])"
    by (rule sorted_wrt_mono_rel [rotated]) (simp add: set_sortBy ahead_sortKey nn)
  then show ?thesis
    by (simp add: sortedTeams_def)
qed

lemma ahead_asym: "ahead cat store a b \<Longrightarrow> \<not> ahead cat store b a"
  by (cases "rawValue cat (store ! a)"; cases "rawValue cat (store ! b)";
      auto simp: ahead_def sortCompare_def compareTeams_def Let_def number_eval split: if_splits)

lemma ahead_irrefl: "\<not> ahead cat store a a"
  by (cases "rawValue cat (store ! a)";
      auto simp: ahead_def sortCompare_def compareTeams_def Let_def number_eval)

lemma ahead_total: "a \<noteq> b \<Longrightarrow> ahead cat store a b \<or> ahead cat store b a"
  by (cases "rawValue cat (store ! a)"; cases "rawValue cat (store ! b)";
      auto simp: ahead_def sortCompare_def compareTeams_def Let_def number_eval)

lemma position_less: "i < length store \<Longrightarrow> position cat store i < length store"
  using indexOf_less [of i "sortedTeams cat store"]
  by (simp add: position_def set_sortedTeams length_sortedTeams)

lemma position_inj:
  "i < length store \<Longrightarrow> position cat store i = position cat store j \<Longrightarrow> i = j"
  unfolding position_def by (rule indexOf_eqD) (simp_all add: set_sortedTeams)

lemma sortedTeams_position:
  "i < length store \<Longrightarrow> sortedTeams cat store ! position cat store i = i"
  unfolding position_def by (rule nth_indexOf) (simp add: set_sortedTeams)

lemma position_sortedTeams:
  "p < length store \<Longrightarrow> position cat store (sortedTeams cat store ! p) = p"
  unfolding position_def by (rule indexOf_nth) (simp_all add: distinct_sortedTeams length_sortedTeams)

lemma position_less_iff:
  assumes "noNaN cat store" and "i < length store" and "j < length store"
  shows "position cat store i < position cat store j \<longleftrightarrow> ahead cat store i j"
proof
  assume lt: "position cat store i < position cat store j"
  have "ahead cat store (sortedTeams cat store ! position cat store i)
          (sortedTeams cat store ! position cat store j)"
    by (rule sorted_wrt_nth_less [OF sorted_sortedTeams [OF assms(1)] lt])
      (simp add: length_sortedTeams position_less assms)
  then show "ahead cat store i j"
    by (simp add: sortedTeams_position assms)
next
  assume a: "ahead cat store i j"
  show "position cat store i < position cat store j"
  proof (rule ccontr)
    assume "\<not> position cat store i < position cat store j"
    then consider "position cat store j < position cat store i"
      | "position cat store i = position cat store j"
      by linarith
    then show False
    proof cases
      case 1
      have "ahead cat store (sortedTeams cat store ! position cat store j)
              (sortedTeams cat store ! position cat store i)"
        by (rule sorted_wrt_nth_less [OF sorted_sortedTeams [OF assms(1)] 1])
          (simp add: length_sortedTeams position_less assms)
      then have "ahead cat store j i"
        by (simp add: sortedTeams_position assms)
      with a show False by (simp add: ahead_asym)
    next
      case 2
      then have "i = j" using assms(2) by (rule position_inj [rotated])
      with a show False by (simp add: ahead_irrefl)
    qed
  qed
qed

lemma position_zero_iff:
  assumes "noNaN cat store" and "i < length store"
  shows "position cat store i = 0 \<longleftrightarrow> (\<forall>j<length store. j \<noteq> i \<longrightarrow> ahead cat store i j)"
proof
  assume z: "position cat store i = 0"
  show "\<forall>j<length store. j \<noteq> i \<longrightarrow> ahead cat store i j"
  proof (intro allI impI)
    fix j assume j: "j < length store" "j \<noteq> i"
    have "position cat store j \<noteq> position cat store i"
      using position_inj [OF j(1), of cat i] j(2) by auto
    with z have "position cat store i < position cat store j" by simp
    then show "ahead cat store i j"
      by (simp add: position_less_iff assms j(1))
  qed
next
  assume all: "\<forall>j<length store. j \<noteq> i \<longrightarrow> ahead cat store i j"
  show "position cat store i = 0"
  proof (rule ccontr)
    assume nz: "position cat store i \<noteq> 0"
    define h where "h = sortedTeams cat store ! 0"
    have len: "0 < length store" using assms by auto
    have h_lt: "h < length store"
      using nth_mem [of 0 "sortedTeams cat store"] len
      by (simp add: h_def length_sortedTeams set_sortedTeams)
    have ph: "position cat store h = 0"
      unfolding h_def by (rule position_sortedTeams [OF len])
    with nz have "h \<noteq> i" by auto
    with all h_lt have "ahead cat store i h" by simp
    moreover have "ahead cat store h i"
      using ph nz position_less_iff [OF assms(1) h_lt assms(2)] by simp
    ultimately show False by (simp add: ahead_asym)
  qed
qed

text \<open>
  When no raw value is \<^verbatim>\<open>NaN\<close> the sorted copy does not depend on the sorting algorithm: any
  arrangement of the teams in which every team stands before the teams it is not ahead of is
  the one computed here.
\<close>

lemma ahead_sorted_unique:
  assumes "sorted_wrt (ahead cat store) xs" and "sorted_wrt (ahead cat store) ys"
    and "distinct xs" and "distinct ys" and "set xs = set ys"
  shows "xs = ys"
  using assms
proof (induction xs arbitrary: ys)
  case Nil
  then show ?case by simp
next
  case (Cons x xs)
  then obtain y ys' where ys: "ys = y # ys'"
    by (cases ys) auto
  have "x = y"
  proof (rule ccontr)
    assume ne: "x \<noteq> y"
    with Cons.prems(5) ys have "x \<in> set ys'" and "y \<in> set xs"
      by auto
    with Cons.prems(1,2) ys have "ahead cat store y x" and "ahead cat store x y"
      by auto
    then show False
      by (simp add: ahead_asym)
  qed
  moreover from this Cons.prems(3,4,5) ys have "set xs = set ys'"
    by auto
  ultimately show ?case
    using Cons.IH [of ys'] Cons.prems ys by simp
qed

lemma sortedTeams_unique:
  assumes "noNaN cat store"
    and "sorted_wrt (ahead cat store) xs" and "distinct xs" and "set xs = {0..<length store}"
  shows "xs = sortedTeams cat store"
  by (rule ahead_sorted_unique [OF assms(2) sorted_sortedTeams [OF assms(1)] assms(3)
        distinct_sortedTeams])
    (simp add: assms(4) set_sortedTeams)

subsection \<open>One category\<close>

lemma award_fields:
  "teamName (award cat r p s) = teamName s"
  "seasonId (award cat r p s) = seasonId s"
  "players (award cat r p s) = players s"
  "skaters (award cat r p s) = skaters s"
  "goalies (award cat r p s) = goalies s"
  "categoryRanks (award cat r p s) = (categoryRanks s)(key cat \<mapsto> r)"
  "categoryPoints (award cat r p s) = (categoryPoints s)(key cat \<mapsto> p)"
  "f \<noteq> ''fantasyScore'' \<Longrightarrow> totals (award cat r p s) f = totals s f"
  "totals (award cat r p s) ''fantasyScore'' =
     Some (case totals s ''fantasyScore'' of None \<Rightarrow> NaN | Some score \<Rightarrow> score + p)"
  by (simp_all add: award_def)

lemma resetScores_award: "resetScores (award cat r p s) = resetScores s"
  by (simp add: resetScores_def award_def)

lemma resetScores_idem: "resetScores (resetScores s) = resetScores s"
  by (simp add: resetScores_def)

lemma resetScores_fields:
  "teamName (resetScores s) = teamName s"
  "seasonId (resetScores s) = seasonId s"
  "players (resetScores s) = players s"
  "skaters (resetScores s) = skaters s"
  "goalies (resetScores s) = goalies s"
  "categoryRanks (resetScores s) = Map.empty"
  "categoryPoints (resetScores s) = Map.empty"
  "f \<noteq> ''fantasyScore'' \<Longrightarrow> totals (resetScores s) f = totals s f"
  "totals (resetScores s) ''fantasyScore'' = Some 0"
  by (simp_all add: resetScores_def)

lemma length_assignRanks: "length (assignRanks cat n idx rs store) = length store"
  by (induction rs arbitrary: idx store) (simp_all add: Let_def)

lemma assignRanks_nth:
  assumes "distinct rs" and "\<forall>r \<in> set rs. r < length store" and "i < length store"
  shows "assignRanks cat n idx rs store ! i =
     (if i \<in> set rs
      then award cat (Fin (of_nat (idx + indexOf i rs) + 1))
             (Fin (of_nat n - of_nat (idx + indexOf i rs))) (store ! i)
      else store ! i)"
  using assms
proof (induction rs arbitrary: idx store)
  case Nil
  then show ?case by simp
next
  case (Cons r rs)
  let ?store' = "store[r := award cat (Fin (of_nat idx + 1)) (Fin (of_nat n - of_nat idx)) (store ! r)]"
  have step: "assignRanks cat n idx (r # rs) store = assignRanks cat n (idx + 1) rs ?store'"
    by (simp add: Let_def)
  have IH: "assignRanks cat n (idx + 1) rs ?store' ! i =
     (if i \<in> set rs
      then award cat (Fin (of_nat (idx + 1 + indexOf i rs) + 1))
             (Fin (of_nat n - of_nat (idx + 1 + indexOf i rs))) (?store' ! i)
      else ?store' ! i)"
    by (rule Cons.IH) (use Cons.prems in auto)
  show ?case
  proof (cases "i = r")
    case True
    then have "i \<notin> set rs" using Cons.prems(1) by simp
    with True IH Cons.prems(3) show ?thesis
      unfolding step by simp
  next
    case False
    with IH show ?thesis
      unfolding step by simp
  qed
qed

lemma length_scoreCategory: "length (scoreCategory n store cat) = length store"
  by (simp add: scoreCategory_def length_assignRanks)

lemma scoreCategory_nth:
  assumes "i < length store"
  shows "scoreCategory n store cat ! i =
     award cat (Fin (of_nat (position cat store i) + 1))
       (Fin (of_nat n - of_nat (position cat store i))) (store ! i)"
proof -
  have "scoreCategory n store cat ! i =
     (if i \<in> set (sortedTeams cat store)
      then award cat (Fin (of_nat (0 + indexOf i (sortedTeams cat store)) + 1))
             (Fin (of_nat n - of_nat (0 + indexOf i (sortedTeams cat store)))) (store ! i)
      else store ! i)"
    unfolding scoreCategory_def
    by (rule assignRanks_nth) (simp_all add: distinct_sortedTeams set_sortedTeams assms)
  then show ?thesis
    using assms by (simp add: set_sortedTeams position_def)
qed

text \<open>The order of a category depends on the raw values only.\<close>

lemma sortedTeams_cong:
  assumes "length store' = length store"
    and "\<forall>i<length store. rawValue cat (store' ! i) = rawValue cat (store ! i)"
  shows "sortedTeams cat store' = sortedTeams cat store"
  unfolding sortedTeams_def assms(1)
  by (rule sortBy_cong) (use assms(2) in \<open>simp add: compareTeams_def\<close>)

lemma position_cong:
  assumes "length store' = length store"
    and "\<forall>i<length store. rawValue cat (store' ! i) = rawValue cat (store ! i)"
  shows "position cat store' = position cat store"
  by (intro ext) (simp add: position_def sortedTeams_cong [OF assms])

lemma rawValue_award: "field cat \<noteq> ''fantasyScore'' \<Longrightarrow> rawValue cat (award cat' r p s) = rawValue cat s"
  by (simp add: rawValue_def award_fields)

lemma rawValue_resetScores: "field cat \<noteq> ''fantasyScore'' \<Longrightarrow> rawValue cat (resetScores s) = rawValue cat s"
  by (simp add: rawValue_def resetScores_fields)

lemma position_scoreCategory:
  assumes "field cat \<noteq> ''fantasyScore''"
  shows "position cat (scoreCategory n store cat') = position cat store"
  by (rule position_cong) (simp_all add: length_scoreCategory scoreCategory_nth rawValue_award assms)

lemma position_resetScores:
  assumes "field cat \<noteq> ''fantasyScore''"
  shows "position cat (map resetScores store) = position cat store"
  by (rule position_cong) (simp_all add: rawValue_resetScores assms)

subsection \<open>All categories\<close>

lemma length_scoreCategories: "length (scoreCategories n cats store) = length store"
  unfolding scoreCategories_def
  by (induction cats arbitrary: store) (simp_all add: length_scoreCategory)

lemma scoreCategories_Cons:
  "scoreCategories n (cat # cats) store = scoreCategories n cats (scoreCategory n store cat)"
  by (simp add: scoreCategories_def)

lemma scoreCategories_Nil: "scoreCategories n [] store = store"
  by (simp add: scoreCategories_def)

lemma resetScores_scoreCategory:
  "map resetScores (scoreCategory n store cat) = map resetScores store"
  by (rule nth_equalityI) (simp_all add: length_scoreCategory scoreCategory_nth resetScores_award)

lemma resetScores_scoreCategories:
  "map resetScores (scoreCategories n cats store) = map resetScores store"
  by (induction cats arbitrary: store)
    (simp_all add: scoreCategories_Nil scoreCategories_Cons resetScores_scoreCategory)

lemma scoreCategories_other_key:
  assumes "k \<notin> key ` set cats" and "i < length store"
  shows "categoryRanks (scoreCategories n cats store ! i) k = categoryRanks (store ! i) k"
    and "categoryPoints (scoreCategories n cats store ! i) k = categoryPoints (store ! i) k"
  using assms
  by (induction cats arbitrary: store)
    (auto simp: scoreCategories_Nil scoreCategories_Cons length_scoreCategory scoreCategory_nth award_fields)

lemma scoreCategories_rank:
  assumes "distinct (map key cats)" and "\<forall>c \<in> set cats. field c \<noteq> ''fantasyScore''"
    and "cat \<in> set cats" and "i < length store"
  shows "categoryRanks (scoreCategories n cats store ! i) (key cat) =
           Some (Fin (of_nat (position cat store i) + 1)) \<and>
         categoryPoints (scoreCategories n cats store ! i) (key cat) =
           Some (Fin (of_nat n - of_nat (position cat store i)))"
  using assms
proof (induction cats arbitrary: store)
  case Nil
  then show ?case by simp
next
  case (Cons c cats)
  show ?case
  proof (cases "cat = c")
    case True
    then have "key cat \<notin> key ` set cats"
      using Cons.prems(1) by auto
    then show ?thesis
      using Cons.prems(4) True
      by (simp add: scoreCategories_Cons scoreCategories_other_key length_scoreCategory
          scoreCategory_nth award_fields)
  next
    case False
    then have mem: "cat \<in> set cats"
      using Cons.prems(3) by simp
    have "field cat \<noteq> ''fantasyScore''"
      using Cons.prems(2,3) by auto
    then have pos: "position cat (scoreCategory n store c) = position cat store"
      by (rule position_scoreCategory)
    have "categoryRanks (scoreCategories n cats (scoreCategory n store c) ! i) (key cat) =
            Some (Fin (of_nat (position cat (scoreCategory n store c) i) + 1)) \<and>
          categoryPoints (scoreCategories n cats (scoreCategory n store c) ! i) (key cat) =
            Some (Fin (of_nat n - of_nat (position cat (scoreCategory n store c) i)))"
      by (rule Cons.IH) (use Cons.prems mem in \<open>simp_all add: length_scoreCategory\<close>)
    then show ?thesis
      by (simp add: scoreCategories_Cons pos)
  qed
qed

lemma scoreCategories_fantasyScore:
  assumes "\<forall>c \<in> set cats. field c \<noteq> ''fantasyScore''" and "i < length store"
    and "totals (store ! i) ''fantasyScore'' = Some v"
  shows "totals (scoreCategories n cats store ! i) ''fantasyScore'' =
     Some (v + (\<Sum>c\<leftarrow>cats. Fin (of_nat n - of_nat (position c store i))))"
  using assms
proof (induction cats arbitrary: store v)
  case Nil
  then show ?case by (simp add: scoreCategories_Nil)
next
  case (Cons c cats)
  have pos: "\<forall>c' \<in> set cats. position c' (scoreCategory n store c) = position c' store"
    using Cons.prems(1) by (simp add: position_scoreCategory)
  have first: "totals (scoreCategory n store c ! i) ''fantasyScore'' =
      Some (v + Fin (of_nat n - of_nat (position c store i)))"
    using Cons.prems(2,3) by (simp add: scoreCategory_nth award_fields)
  have "totals (scoreCategories n (c # cats) store ! i) ''fantasyScore'' =
      Some (v + Fin (of_nat n - of_nat (position c store i)) +
        (\<Sum>c'\<leftarrow>cats. Fin (of_nat n - of_nat (position c' (scoreCategory n store c) i))))"
    unfolding scoreCategories_Cons
    by (rule Cons.IH) (use Cons.prems first in \<open>simp_all add: length_scoreCategory\<close>)
  also have "(\<Sum>c'\<leftarrow>cats. Fin (of_nat n - of_nat (position c' (scoreCategory n store c) i))) =
      (\<Sum>c'\<leftarrow>cats. Fin (of_nat n - of_nat (position c' store i)))"
    using pos by (intro arg_cong [where f = sum_list] map_cong) simp_all
  finally show ?case
    by (simp add: add.assoc)
qed

subsection \<open>The whole pass\<close>

lemma CATEGORIES_keys: "distinct (map key CATEGORIES)"
  by (simp add: CATEGORIES_def)

lemma CATEGORIES_fields: "\<forall>c \<in> set CATEGORIES. field c \<noteq> ''fantasyScore''"
  by (simp add: CATEGORIES_def)

lemma length_applyCategoryRankScoring: "length (applyCategoryRankScoring ss) = length ss"
  by (simp add: applyCategoryRankScoring_def Let_def length_scoreCategories)

lemma applyCategoryRankScoring_rank:
  assumes "cat \<in> set CATEGORIES" and "i < length ss"
  shows "categoryRanks (applyCategoryRankScoring ss ! i) (key cat) =
           Some (Fin (of_nat (position cat ss i) + 1)) \<and>
         categoryPoints (applyCategoryRankScoring ss ! i) (key cat) =
           Some (Fin (of_nat (length ss) - of_nat (position cat ss i)))"
proof -
  have "field cat \<noteq> ''fantasyScore''"
    using assms(1) CATEGORIES_fields by blast
  then have pos: "position cat (map resetScores ss) = position cat ss"
    by (rule position_resetScores)
  have "categoryRanks (scoreCategories (length ss) CATEGORIES (map resetScores ss) ! i) (key cat) =
           Some (Fin (of_nat (position cat (map resetScores ss) i) + 1)) \<and>
         categoryPoints (scoreCategories (length ss) CATEGORIES (map resetScores ss) ! i) (key cat) =
           Some (Fin (of_nat (length ss) - of_nat (position cat (map resetScores ss) i)))"
    by (rule scoreCategories_rank [OF CATEGORIES_keys CATEGORIES_fields assms(1)]) (simp add: assms(2))
  then show ?thesis
    by (simp add: applyCategoryRankScoring_def Let_def pos)
qed

lemma applyCategoryRankScoring_fantasyScore:
  assumes "i < length ss"
  shows "totals (applyCategoryRankScoring ss ! i) ''fantasyScore'' =
           Some (\<Sum>c\<leftarrow>CATEGORIES. Fin (of_nat (length ss) - of_nat (position c ss i)))"
proof -
  have "totals (scoreCategories (length ss) CATEGORIES (map resetScores ss) ! i) ''fantasyScore'' =
     Some (0 + (\<Sum>c\<leftarrow>CATEGORIES. Fin (of_nat (length ss) - of_nat (position c (map resetScores ss) i))))"
    by (rule scoreCategories_fantasyScore [OF CATEGORIES_fields])
      (simp_all add: assms resetScores_fields)
  also have "(\<Sum>c\<leftarrow>CATEGORIES. Fin (of_nat (length ss) - of_nat (position c (map resetScores ss) i))) =
      (\<Sum>c\<leftarrow>CATEGORIES. Fin (of_nat (length ss) - of_nat (position c ss i)))"
    using CATEGORIES_fields
    by (intro arg_cong [where f = sum_list] map_cong) (simp_all add: position_resetScores)
  finally show ?thesis
    by (simp add: applyCategoryRankScoring_def Let_def)
qed

lemma applyCategoryRankScoring_frame:
  "map resetScores (applyCategoryRankScoring ss) = map resetScores ss"
  by (simp add: applyCategoryRankScoring_def Let_def resetScores_scoreCategories resetScores_idem comp_def)

lemma position_bij: "bij_betw (position cat store) {0..<length store} {0..<length store}"
proof -
  have inj: "inj_on (position cat store) {0..<length store}"
    by (rule inj_onI) (simp add: position_inj)
  have "position cat store ` {0..<length store} \<subseteq> {0..<length store}"
    by (auto simp: position_less)
  moreover have "card (position cat store ` {0..<length store}) = card {0..<length store}"
    by (rule card_image [OF inj])
  ultimately have "position cat store ` {0..<length store} = {0..<length store}"
    by (intro card_subset_eq) simp_all
  with inj show ?thesis
    by (simp add: bij_betw_def)
qed

lemma rank_bij:
  "bij_betw (\<lambda>i. Suc (position cat store i)) {0..<length store} {Suc 0..length store}"
proof -
  have "bij_betw Suc {0..<length store} {Suc 0..length store}"
    by (simp add: bij_betw_def image_Suc_atLeastLessThan atLeastLessThanSuc_atLeastAtMost)
  from bij_betw_trans [OF position_bij this] show ?thesis
    by (simp add: comp_def)
qed


text \<open>The team that is ahead of all others, in terms of the raw values.\<close>

lemma ahead_all_iff:
  assumes "noNaN cat ss" and "i < length ss"
  shows "(\<forall>j<length ss. j \<noteq> i \<longrightarrow> ahead cat ss i j) \<longleftrightarrow>
     (if higherIsBetter cat
      then (\<forall>j<length ss. rawValue cat (ss ! j) \<le> rawValue cat (ss ! i)) \<and>
           (\<forall>j<i. rawValue cat (ss ! j) < rawValue cat (ss ! i))
      else (\<forall>j<length ss. rawValue cat (ss ! i) \<le> rawValue cat (ss ! j)) \<and>
           (\<forall>j<i. rawValue cat (ss ! i) < rawValue cat (ss ! j)))"
proof -
  define K where "K j = numKey (rawValue cat (ss ! j))" for j
  have nn: "rawValue cat (ss ! j) \<noteq> NaN" if "j < length ss" for j
    using assms(1) that by (simp add: noNaN_def)
  have le: "rawValue cat (ss ! a) \<le> rawValue cat (ss ! b) \<longleftrightarrow> K a \<le> K b"
    and less: "rawValue cat (ss ! a) < rawValue cat (ss ! b) \<longleftrightarrow> K a < K b"
    if "a < length ss" "b < length ss" for a b
    using nn that by (simp_all add: K_def le_numKey less_numKey)
  have ah: "ahead cat ss a b \<longleftrightarrow>
      (if higherIsBetter cat then K b < K a \<or> (K b = K a \<and> a < b)
       else K a < K b \<or> (K a = K b \<and> a < b))"
    if "a < length ss" "b < length ss" for a b
    using nn that by (simp add: K_def ahead_raw)
  have keys: "(\<forall>j<length ss. j \<noteq> i \<longrightarrow> ahead cat ss i j) \<longleftrightarrow>
     (if higherIsBetter cat
      then (\<forall>j<length ss. K j \<le> K i) \<and> (\<forall>j<i. K j < K i)
      else (\<forall>j<length ss. K i \<le> K j) \<and> (\<forall>j<i. K i < K j))"
  proof (cases "higherIsBetter cat")
    case True
    have "(\<forall>j<length ss. j \<noteq> i \<longrightarrow> ahead cat ss i j) \<longleftrightarrow>
        (\<forall>j<length ss. K j \<le> K i) \<and> (\<forall>j<i. K j < K i)" (is "?L \<longleftrightarrow> ?R")
    proof
      assume L: ?L
      have "K j \<le> K i" if "j < length ss" for j
        using L that True assms(2) by (cases "j = i") (auto simp: ah)
      moreover have "K j < K i" if "j < i" for j
      proof -
        from that assms(2) have j: "j < length ss" "j \<noteq> i" by simp_all
        with L have "ahead cat ss i j" by blast
        with that True j assms(2) show ?thesis by (auto simp: ah)
      qed
      ultimately show ?R by blast
    next
      assume R: ?R
      show ?L
      proof (intro allI impI)
        fix j assume j: "j < length ss" "j \<noteq> i"
        show "ahead cat ss i j"
        proof (cases "j < i")
          case True
          with R \<open>higherIsBetter cat\<close> j assms(2) show ?thesis
            by (simp add: ah)
        next
          case False
          with j have "i < j" by simp
          moreover from R j have "K j \<le> K i" by blast
          ultimately show ?thesis
            using \<open>higherIsBetter cat\<close> j assms(2) by (auto simp: ah)
        qed
      qed
    qed
    with True show ?thesis by simp
  next
    case False
    have "(\<forall>j<length ss. j \<noteq> i \<longrightarrow> ahead cat ss i j) \<longleftrightarrow>
        (\<forall>j<length ss. K i \<le> K j) \<and> (\<forall>j<i. K i < K j)" (is "?L \<longleftrightarrow> ?R")
    proof
      assume L: ?L
      have "K i \<le> K j" if "j < length ss" for j
        using L that False assms(2) by (cases "j = i") (auto simp: ah)
      moreover have "K i < K j" if "j < i" for j
      proof -
        from that assms(2) have j: "j < length ss" "j \<noteq> i" by simp_all
        with L have "ahead cat ss i j" by blast
        with that False j assms(2) show ?thesis by (auto simp: ah)
      qed
      ultimately show ?R by blast
    next
      assume R: ?R
      show ?L
      proof (intro allI impI)
        fix j assume j: "j < length ss" "j \<noteq> i"
        show "ahead cat ss i j"
        proof (cases "j < i")
          case True
          with R \<open>\<not> higherIsBetter cat\<close> j assms(2) show ?thesis
            by (simp add: ah)
        next
          case False
          with j have "i < j" by simp
          moreover from R j have "K i \<le> K j" by blast
          ultimately show ?thesis
            using \<open>\<not> higherIsBetter cat\<close> j assms(2) by (auto simp: ah)
        qed
      qed
    qed
    with False show ?thesis by simp
  qed
  have "(\<forall>j<length ss. rawValue cat (ss ! j) \<le> rawValue cat (ss ! i)) \<longleftrightarrow> (\<forall>j<length ss. K j \<le> K i)"
    "(\<forall>j<i. rawValue cat (ss ! j) < rawValue cat (ss ! i)) \<longleftrightarrow> (\<forall>j<i. K j < K i)"
    "(\<forall>j<length ss. rawValue cat (ss ! i) \<le> rawValue cat (ss ! j)) \<longleftrightarrow> (\<forall>j<length ss. K i \<le> K j)"
    "(\<forall>j<i. rawValue cat (ss ! i) < rawValue cat (ss ! j)) \<longleftrightarrow> (\<forall>j<i. K i < K j)"
    using assms(2) by (auto simp: le less)
  then show ?thesis
    by (simp only: keys)
qed


text \<open>The ranks and points of a category, read off the sorted copy.\<close>

lemma ranks_by_position:
  assumes "cat \<in> set CATEGORIES"
  shows "map (\<lambda>s. categoryRanks s (key cat)) (applyCategoryRankScoring ss) =
           map (\<lambda>i. Some (Fin (of_nat (position cat ss i) + 1))) [0..<length ss]"
    and "map (\<lambda>s. categoryPoints s (key cat)) (applyCategoryRankScoring ss) =
           map (\<lambda>i. Some (Fin (of_nat (length ss) - of_nat (position cat ss i)))) [0..<length ss]"
  by (rule nth_equalityI;
      simp add: length_applyCategoryRankScoring applyCategoryRankScoring_rank [OF assms])+

lemmas sort_eval = sortedTeams_def sortBy_def compareTeams_def sortCompare_def Let_def upt_rec

lemma noNaN_raw: "NaN \<notin> set (map (rawValue cat) ss) \<Longrightarrow> noNaN cat ss"
  by (auto simp: noNaN_def) (metis imageI nth_mem)

section \<open>The summarizer: properties\<close>



section \<open>The scorer: properties\<close>




text \<open>
  C3. For a non-empty list of N summaries and a configured category: the ranks of the category
  are a bijection from the teams onto 1..N, every team's points in the category are
  N - rank + 1, and every team's fantasyScore is the sum of its points over all categories.
\<close>

theorem rank_totality_and_points:
  assumes "summaries \<noteq> []" and "cat \<in> set CATEGORIES"
  shows "length (applyCategoryRankScoring summaries) = length summaries \<and>
    (\<exists>rk. bij_betw rk {0..<length summaries} {1..length summaries} \<and>
       (\<forall>i<length summaries.
          categoryRanks (applyCategoryRankScoring summaries ! i) (key cat) = Some (Fin (of_nat (rk i))) \<and>
          categoryPoints (applyCategoryRankScoring summaries ! i) (key cat) =
            Some (Fin (of_nat (length summaries) - of_nat (rk i) + 1)))) \<and>
    (\<forall>i<length summaries.
       \<exists>pts. (\<forall>c \<in> set CATEGORIES.
                categoryPoints (applyCategoryRankScoring summaries ! i) (key c) = Some (pts c)) \<and>
             totals (applyCategoryRankScoring summaries ! i) ''fantasyScore'' =
               Some (\<Sum>c\<leftarrow>CATEGORIES. pts c))"
proof (intro conjI)
  show "length (applyCategoryRankScoring summaries) = length summaries"
    by (rule length_applyCategoryRankScoring)
  show "\<exists>rk. bij_betw rk {0..<length summaries} {1..length summaries} \<and>
       (\<forall>i<length summaries.
          categoryRanks (applyCategoryRankScoring summaries ! i) (key cat) = Some (Fin (of_nat (rk i))) \<and>
          categoryPoints (applyCategoryRankScoring summaries ! i) (key cat) =
            Some (Fin (of_nat (length summaries) - of_nat (rk i) + 1)))"
    by (rule exI [where x = "\<lambda>i. Suc (position cat summaries i)"])
      (simp add: rank_bij applyCategoryRankScoring_rank [OF assms(2)] add.commute)
  show "\<forall>i<length summaries.
       \<exists>pts. (\<forall>c \<in> set CATEGORIES.
                categoryPoints (applyCategoryRankScoring summaries ! i) (key c) = Some (pts c)) \<and>
             totals (applyCategoryRankScoring summaries ! i) ''fantasyScore'' =
               Some (\<Sum>c\<leftarrow>CATEGORIES. pts c)"
  proof (intro allI impI)
    fix i assume i: "i < length summaries"
    show "\<exists>pts. (\<forall>c \<in> set CATEGORIES.
                categoryPoints (applyCategoryRankScoring summaries ! i) (key c) = Some (pts c)) \<and>
             totals (applyCategoryRankScoring summaries ! i) ''fantasyScore'' =
               Some (\<Sum>c\<leftarrow>CATEGORIES. pts c)"
      by (rule exI [where x = "\<lambda>c. Fin (of_nat (length summaries) - of_nat (position c summaries i))"])
        (simp add: applyCategoryRankScoring_rank i applyCategoryRankScoring_fantasyScore)
  qed
qed

theorem rank_totality_and_points_witness:
  "exampleTeams \<noteq> [] \<and> CATEGORIES ! 0 \<in> set CATEGORIES \<and>
   length (applyCategoryRankScoring exampleTeams) = 3 \<and>
   map (\<lambda>s. (categoryRanks s ''goals'', categoryPoints s ''goals'', totals s ''fantasyScore''))
     (applyCategoryRankScoring exampleTeams) =
   [(Some 1, Some 3, Some 23), (Some 2, Some 2, Some 15), (Some 3, Some 1, Some 10)]"
proof -
  have ne: "exampleTeams \<noteq> []"
    by (simp add: exampleTeams_def)
  have mem: "CATEGORIES ! 0 \<in> set CATEGORIES"
    by (simp add: CATEGORIES_def)
  have "length (applyCategoryRankScoring exampleTeams) = length exampleTeams"
    using rank_totality_and_points [OF ne mem] by blast
  moreover have "length exampleTeams = 3"
    by (simp add: exampleTeams_def)
  moreover have "map (\<lambda>s. (categoryRanks s ''goals'', categoryPoints s ''goals'', totals s ''fantasyScore''))
     (applyCategoryRankScoring exampleTeams) =
   [(Some 1, Some 3, Some 23), (Some 2, Some 2, Some 15), (Some 3, Some 1, Some 10)]"
    by code_simp
  ultimately show ?thesis
    using ne mem by simp
qed

text \<open>
  C4, as amended. For a non-empty list of summaries, a configured category and a team \<open>i\<close>:
  when no raw value of the category is \<^verbatim>\<open>NaN\<close>, the team gets rank 1 exactly when its raw value
  is the best of the category (the largest when \<open>higherIsBetter\<close> is true, the smallest when it
  is false) and no earlier team of the array has the same raw value. In every list some team
  gets rank 1. The raw value is the \<open>totals\<close> field of the category, 0 when the field is absent.
  The one category with \<open>higherIsBetter\<close> false is the goals-against average.
\<close>

theorem direction_correctness:
  assumes "summaries \<noteq> []" and "cat \<in> set CATEGORIES" and "i < length summaries"
  shows
    "(noNaN cat summaries \<longrightarrow>
        (categoryRanks (applyCategoryRankScoring summaries ! i) (key cat) = Some 1 \<longleftrightarrow>
           (if higherIsBetter cat
            then (\<forall>j<length summaries. rawValue cat (summaries ! j) \<le> rawValue cat (summaries ! i)) \<and>
                 (\<forall>j<i. rawValue cat (summaries ! j) < rawValue cat (summaries ! i))
            else (\<forall>j<length summaries. rawValue cat (summaries ! i) \<le> rawValue cat (summaries ! j)) \<and>
                 (\<forall>j<i. rawValue cat (summaries ! i) < rawValue cat (summaries ! j))))) \<and>
     (\<exists>w<length summaries.
        categoryRanks (applyCategoryRankScoring summaries ! w) (key cat) = Some 1) \<and>
     rawValue cat (summaries ! i) =
       (case totals (summaries ! i) (field cat) of None \<Rightarrow> 0 | Some v \<Rightarrow> v) \<and>
     map key (filter (\<lambda>c. \<not> higherIsBetter c) CATEGORIES) = [''gaa'']"
proof -
  note rank = applyCategoryRankScoring_rank [OF assms(2)]
  have first: "categoryRanks (applyCategoryRankScoring summaries ! i) (key cat) = Some 1 \<longleftrightarrow>
        (if higherIsBetter cat
         then (\<forall>j<length summaries. rawValue cat (summaries ! j) \<le> rawValue cat (summaries ! i)) \<and>
              (\<forall>j<i. rawValue cat (summaries ! j) < rawValue cat (summaries ! i))
         else (\<forall>j<length summaries. rawValue cat (summaries ! i) \<le> rawValue cat (summaries ! j)) \<and>
              (\<forall>j<i. rawValue cat (summaries ! i) < rawValue cat (summaries ! j)))"
    if nn: "noNaN cat summaries"
  proof -
    have "categoryRanks (applyCategoryRankScoring summaries ! i) (key cat) = Some 1 \<longleftrightarrow>
        position cat summaries i = 0"
      using rank [OF assms(3)] by (simp add: one_number_def)
    also have "\<dots> \<longleftrightarrow> (\<forall>j<length summaries. j \<noteq> i \<longrightarrow> ahead cat summaries i j)"
      by (rule position_zero_iff [OF nn assms(3)])
    finally show ?thesis
      by (simp only: ahead_all_iff [OF nn assms(3)])
  qed
  have len: "0 < length summaries"
    using assms(1) by auto
  define w where "w = sortedTeams cat summaries ! 0"
  have w: "w < length summaries"
    using nth_mem [of 0 "sortedTeams cat summaries"] len
    by (simp add: w_def length_sortedTeams set_sortedTeams)
  have "position cat summaries w = 0"
    unfolding w_def by (rule position_sortedTeams [OF len])
  then have "categoryRanks (applyCategoryRankScoring summaries ! w) (key cat) = Some 1"
    using rank [OF w] by (simp add: one_number_def)
  with w have winner: "\<exists>w<length summaries.
        categoryRanks (applyCategoryRankScoring summaries ! w) (key cat) = Some 1"
    by blast
  have "map key (filter (\<lambda>c. \<not> higherIsBetter c) CATEGORIES) = [''gaa'']"
    by (simp add: CATEGORIES_def)
  with first winner show ?thesis
    by (simp add: rawValue_def)
qed

theorem direction_correctness_witness:
  "exampleTeams \<noteq> [] \<and> CATEGORIES ! 7 \<in> set CATEGORIES \<and> (2::nat) < length exampleTeams \<and>
   \<not> higherIsBetter (CATEGORIES ! 7) \<and> noNaN (CATEGORIES ! 7) exampleTeams \<and>
   map (rawValue (CATEGORIES ! 7)) exampleTeams = [Fin (3 / 2), 2, 1] \<and>
   map (rawValue (CATEGORIES ! 3)) exampleTeams = [0, 0, 0] \<and>
   map (\<lambda>s. categoryRanks s (key (CATEGORIES ! 7))) (applyCategoryRankScoring exampleTeams) =
     [Some 2, Some 3, Some 1] \<and>
   map (\<lambda>s. categoryPoints s (key (CATEGORIES ! 7))) (applyCategoryRankScoring exampleTeams) =
     [Some 2, Some 1, Some 3]"
proof -
  have ne: "exampleTeams \<noteq> []" and len: "(2::nat) < length exampleTeams"
    by (simp_all add: exampleTeams_def)
  have mem: "CATEGORIES ! 7 \<in> set CATEGORIES" and lo: "\<not> higherIsBetter (CATEGORIES ! 7)"
    by (simp_all add: CATEGORIES_def)
  have raw: "map (rawValue (CATEGORIES ! 7)) exampleTeams = [Fin (3 / 2), 2, 1]"
    "map (rawValue (CATEGORIES ! 3)) exampleTeams = [0, 0, 0]"
    by (simp_all add: CATEGORIES_def exampleTeams_def teamOf_def rawValue_def)
  have nn: "noNaN (CATEGORIES ! 7) exampleTeams"
    by (rule noNaN_raw) (simp add: raw number_eval)
  have least: "(\<forall>j<length exampleTeams.
       rawValue (CATEGORIES ! 7) (exampleTeams ! 2) \<le> rawValue (CATEGORIES ! 7) (exampleTeams ! j)) \<and>
     (\<forall>j<2. rawValue (CATEGORIES ! 7) (exampleTeams ! 2) < rawValue (CATEGORIES ! 7) (exampleTeams ! j))"
    by (simp add: CATEGORIES_def exampleTeams_def teamOf_def rawValue_def All_less_Suc
        numeral_3_eq_3 numeral_2_eq_2 number_eval)
  have "categoryRanks (applyCategoryRankScoring exampleTeams ! 2) (key (CATEGORIES ! 7)) = Some 1"
    using direction_correctness [OF ne mem len] lo nn least by simp
  moreover have "map (\<lambda>s. categoryRanks s (key (CATEGORIES ! 7))) (applyCategoryRankScoring exampleTeams) =
     [Some 2, Some 3, Some 1]"
   "map (\<lambda>s. categoryPoints s (key (CATEGORIES ! 7))) (applyCategoryRankScoring exampleTeams) =
     [Some 2, Some 1, Some 3]"
    by code_simp+
  ultimately show ?thesis
    using ne mem len lo nn raw by simp
qed

text \<open>
  The same three teams by save percentage: the team with the largest average is ranked last.
  Of the last two teams alone the first has rank 1, its average being \<^verbatim>\<open>NaN\<close>; there the sort
  reads the comparator as 0 on every pair, so that every stable sort keeps the order of the
  array.
\<close>

theorem largest_ranked_last_counterexample:
  "(case (computeTeamSummary steadyPayload JUndefined, computeTeamSummary brokenPayload JUndefined,
          computeTeamSummary sharpPayload JUndefined) of
      (Inr a, Inr b, Inr c) \<Rightarrow>
        (map (\<lambda>s. totals s ''avgSavePct'') [a, b, c],
         map (\<lambda>s. categoryRanks s ''savePct'') (applyCategoryRankScoring [a, b, c]),
         map (\<lambda>s. categoryRanks s ''savePct'') (applyCategoryRankScoring [b, c]))
    | _ \<Rightarrow> ([], [], [])) =
   ([Some (Fin (1 / 2)), Some NaN, Some (Fin (7 / 8))], [Some 1, Some 2, Some 3],
    [Some 1, Some 2])"
proof -
  obtain a where a: "computeTeamSummary steadyPayload JUndefined = Inr a"
    unfolding steadyPayload_def using goaliePayload_total by blast
  obtain b where b: "computeTeamSummary brokenPayload JUndefined = Inr b"
    unfolding brokenPayload_def using goaliePayload_total by blast
  obtain c where c: "computeTeamSummary sharpPayload JUndefined = Inr c"
    unfolding sharpPayload_def using goaliePayload_total by blast
  note avg = steady_broken_sharp(1) [OF a b c]
  have mem: "CATEGORIES ! 6 \<in> set CATEGORIES" and k: "key (CATEGORIES ! 6) = ''savePct''"
    by (simp_all add: CATEGORIES_def)
  have raw: "rawValue (CATEGORIES ! 6) a = Fin (1 / 2)" "rawValue (CATEGORIES ! 6) b = NaN"
    "rawValue (CATEGORIES ! 6) c = Fin (7 / 8)" "higherIsBetter (CATEGORIES ! 6)"
    using avg by (simp_all add: rawValue_def CATEGORIES_def)
  have sorted: "sortedTeams (CATEGORIES ! 6) [a, b, c] = [0, 1, 2]"
    "sortedTeams (CATEGORIES ! 6) [b, c] = [0, 1]"
    using raw by (simp_all add: sort_eval number_eval)
  have "map (\<lambda>s. categoryRanks s (key (CATEGORIES ! 6))) (applyCategoryRankScoring [a, b, c]) =
      [Some 1, Some 2, Some 3]"
    "map (\<lambda>s. categoryRanks s (key (CATEGORIES ! 6))) (applyCategoryRankScoring [b, c]) =
      [Some 1, Some 2]"
    by (simp_all add: ranks_by_position [OF mem] upt_rec position_def sorted number_eval)
  with a b c avg show ?thesis
    by (simp add: k)
qed

text \<open>
  C6. Scoring the scored list again gives the same list: the same ranks, points and
  fantasyScore on every summary, whatever the scoring fields held before the first call.
\<close>

theorem scoring_idempotent:
  "applyCategoryRankScoring (applyCategoryRankScoring summaries) =
     applyCategoryRankScoring summaries \<and>
   map categoryRanks (applyCategoryRankScoring (applyCategoryRankScoring summaries)) =
     map categoryRanks (applyCategoryRankScoring summaries) \<and>
   map categoryPoints (applyCategoryRankScoring (applyCategoryRankScoring summaries)) =
     map categoryPoints (applyCategoryRankScoring summaries) \<and>
   map (\<lambda>s. totals s ''fantasyScore'') (applyCategoryRankScoring (applyCategoryRankScoring summaries)) =
     map (\<lambda>s. totals s ''fantasyScore'') (applyCategoryRankScoring summaries)"
proof -
  have "applyCategoryRankScoring (applyCategoryRankScoring summaries) =
      scoreCategories (length (applyCategoryRankScoring summaries)) CATEGORIES
        (map resetScores (applyCategoryRankScoring summaries))"
    by (simp add: applyCategoryRankScoring_def Let_def)
  also have "\<dots> = scoreCategories (length summaries) CATEGORIES (map resetScores summaries)"
    by (simp only: length_applyCategoryRankScoring applyCategoryRankScoring_frame)
  also have "\<dots> = applyCategoryRankScoring summaries"
    by (simp add: applyCategoryRankScoring_def Let_def)
  finally show ?thesis
    by simp
qed

theorem scoring_idempotent_witness:
  "map (\<lambda>s. (categoryRanks s ''goals'', categoryPoints s ''goals'', totals s ''fantasyScore''))
     (applyCategoryRankScoring (applyCategoryRankScoring exampleTeams)) =
   [(Some 1, Some 3, Some 23), (Some 2, Some 2, Some 15), (Some 3, Some 1, Some 10)] \<and>
   map (\<lambda>s. totals s ''fantasyScore'') exampleTeams = [Some 50, None, None] \<and>
   map (\<lambda>s. categoryPoints s ''goals'') exampleTeams = [Some 99, Some 99, Some 99]"
proof -
  have "map (\<lambda>s. (categoryRanks s ''goals'', categoryPoints s ''goals'', totals s ''fantasyScore''))
     (applyCategoryRankScoring exampleTeams) =
   [(Some 1, Some 3, Some 23), (Some 2, Some 2, Some 15), (Some 3, Some 1, Some 10)]"
    by code_simp
  moreover have "map (\<lambda>s. totals s ''fantasyScore'') exampleTeams = [Some 50, None, None]"
    "map (\<lambda>s. categoryPoints s ''goals'') exampleTeams = [Some 99, Some 99, Some 99]"
    by (simp_all add: exampleTeams_def teamOf_def)
  ultimately show ?thesis
    using scoring_idempotent [of exampleTeams] by simp
qed

text \<open>
  C10. The scored list has the teams in the order of the input, and on every team the fields
  teamName, seasonId, players, skaters and goalies and every field of \<open>totals\<close> other than
  fantasyScore are as before the call.
\<close>

theorem scoring_frame:
  "length (applyCategoryRankScoring summaries) = length summaries \<and>
   (\<forall>i<length summaries.
      teamName (applyCategoryRankScoring summaries ! i) = teamName (summaries ! i) \<and>
      seasonId (applyCategoryRankScoring summaries ! i) = seasonId (summaries ! i) \<and>
      players (applyCategoryRankScoring summaries ! i) = players (summaries ! i) \<and>
      skaters (applyCategoryRankScoring summaries ! i) = skaters (summaries ! i) \<and>
      goalies (applyCategoryRankScoring summaries ! i) = goalies (summaries ! i) \<and>
      (\<forall>f. f \<noteq> ''fantasyScore'' \<longrightarrow>
         totals (applyCategoryRankScoring summaries ! i) f = totals (summaries ! i) f))"
proof (intro conjI allI impI)
  show "length (applyCategoryRankScoring summaries) = length summaries"
    by (rule length_applyCategoryRankScoring)
next
  fix i assume i: "i < length summaries"
  have "map resetScores (applyCategoryRankScoring summaries) ! i = map resetScores summaries ! i"
    by (simp only: applyCategoryRankScoring_frame)
  then have eq: "resetScores (applyCategoryRankScoring summaries ! i) = resetScores (summaries ! i)"
    using i by (simp add: length_applyCategoryRankScoring)
  from arg_cong [OF eq, of teamName]
  show "teamName (applyCategoryRankScoring summaries ! i) = teamName (summaries ! i)"
    by (simp add: resetScores_fields)
  from arg_cong [OF eq, of seasonId]
  show "seasonId (applyCategoryRankScoring summaries ! i) = seasonId (summaries ! i)"
    by (simp add: resetScores_fields)
  from arg_cong [OF eq, of players]
  show "players (applyCategoryRankScoring summaries ! i) = players (summaries ! i)"
    by (simp add: resetScores_fields)
  from arg_cong [OF eq, of skaters]
  show "skaters (applyCategoryRankScoring summaries ! i) = skaters (summaries ! i)"
    by (simp add: resetScores_fields)
  from arg_cong [OF eq, of goalies]
  show "goalies (applyCategoryRankScoring summaries ! i) = goalies (summaries ! i)"
    by (simp add: resetScores_fields)
  fix f :: string assume f: "f \<noteq> ''fantasyScore''"
  from arg_cong [OF eq, of "\<lambda>s. totals s f"] f
  show "totals (applyCategoryRankScoring summaries ! i) f = totals (summaries ! i) f"
    by (simp add: resetScores_fields)
qed

theorem scoring_frame_witness:
  "length (applyCategoryRankScoring exampleTeams) = 3 \<and>
   map teamName (applyCategoryRankScoring exampleTeams) = [JStr ''A'', JStr ''B'', JStr ''C''] \<and>
   map (\<lambda>s. totals s ''goals'') (applyCategoryRankScoring exampleTeams) = [Some 10, Some 10, Some 5] \<and>
   map (\<lambda>s. totals s ''avgGaa'') (applyCategoryRankScoring exampleTeams) = [Some (Fin (3 / 2)), Some 2, Some 1] \<and>
   map (\<lambda>s. totals s ''hits'') (applyCategoryRankScoring exampleTeams) = [None, None, None]"
proof -
  note frame = scoring_frame [of exampleTeams]
  have len: "length (applyCategoryRankScoring exampleTeams) = length exampleTeams"
    using frame by blast
  have names: "map teamName (applyCategoryRankScoring exampleTeams) = map teamName exampleTeams"
    by (rule nth_equalityI) (use frame in simp_all)
  have stats: "map (\<lambda>s. totals s f) (applyCategoryRankScoring exampleTeams) =
      map (\<lambda>s. totals s f) exampleTeams" if "f \<noteq> ''fantasyScore''" for f
    by (rule nth_equalityI) (use frame that in simp_all)
  have "map (\<lambda>s. totals s ''goals'') (applyCategoryRankScoring exampleTeams) =
      map (\<lambda>s. totals s ''goals'') exampleTeams"
    "map (\<lambda>s. totals s ''avgGaa'') (applyCategoryRankScoring exampleTeams) =
      map (\<lambda>s. totals s ''avgGaa'') exampleTeams"
    "map (\<lambda>s. totals s ''hits'') (applyCategoryRankScoring exampleTeams) =
      map (\<lambda>s. totals s ''hits'') exampleTeams"
    by (simp_all add: stats)
  then show ?thesis
    by (simp only: len names) (simp add: exampleTeams_def teamOf_def)
qed

section \<open>The summarizer and the scorer together\<close>




text \<open>
  C9. For a payload (not itself null) whose \<^verbatim>\<open>players\<close> is absent, null or the empty array,
  \<open>computeTeamSummary\<close> returns a summary, with no error: its rosters are empty, the six skater
  totals are 0 and the two goalie averages are 0.
\<close>

theorem empty_roster:
  assumes "\<not> nullish teamJson"
    and "getProp teamJson ''players'' = JUndefined \<or> getProp teamJson ''players'' = JNull \<or>
         getProp teamJson ''players'' = JArr []"
  shows "\<exists>s. computeTeamSummary teamJson overrideLabel = Inr s \<and>
    players s = [] \<and> skaters s = [] \<and> goalies s = [] \<and>
    totals s ''goals'' = Some 0 \<and> totals s ''assists'' = Some 0 \<and>
    totals s ''powerPlayPoints'' = Some 0 \<and> totals s ''hits'' = Some 0 \<and>
    totals s ''shots'' = Some 0 \<and> totals s ''penaltyMinutes'' = Some 0 \<and>
    totals s ''avgSavePct'' = Some 0 \<and> totals s ''avgGaa'' = Some 0"
proof -
  have "js_or (getProp teamJson ''players'') (JArr []) = JArr []"
    using assms(2) by (auto simp: js_or_def)
  with assms(1) have "payloadPlayers teamJson = Inr []"
    by (simp add: payloadPlayers_def)
  then show ?thesis
    by (simp add: computeTeamSummary_def tallySkaters_def tally0_def avgOver_def number_eval)
qed

theorem empty_roster_witness:
  "map (\<lambda>teamJson.
          case computeTeamSummary teamJson JUndefined of
            Inl e \<Rightarrow> []
          | Inr s \<Rightarrow> map (totals s)
              [''goals'', ''assists'', ''powerPlayPoints'', ''hits'', ''shots'', ''penaltyMinutes'',
               ''avgSavePct'', ''avgGaa''])
      [JObj [(''team_name'', JStr ''Empty'')],
       JObj [(''players'', JNull)],
       JObj [(''players'', JArr [])]] =
   replicate 3 (replicate 8 (Some 0))"
proof -
  have absent: "\<not> nullish (JObj [(''team_name'', JStr ''Empty'')])"
    "getProp (JObj [(''team_name'', JStr ''Empty'')]) ''players'' = JUndefined"
    and null: "\<not> nullish (JObj [(''players'', JNull)])"
    "getProp (JObj [(''players'', JNull)]) ''players'' = JNull"
    and empty: "\<not> nullish (JObj [(''players'', JArr [])])"
    "getProp (JObj [(''players'', JArr [])]) ''players'' = JArr []"
    by (simp_all add: nullish_def)
  from empty_roster [of "JObj [(''team_name'', JStr ''Empty'')]" JUndefined]
    empty_roster [of "JObj [(''players'', JNull)]" JUndefined]
    empty_roster [of "JObj [(''players'', JArr [])]" JUndefined]
    absent null empty
  show ?thesis
    by (auto simp: numeral_3_eq_3 numeral_eq_Suc)
qed




text \<open>
  C8, as amended. In the category-rank script teamName is the override label when the label
  is truthy, otherwise the payload's \<^verbatim>\<open>team_name\<close> when that is truthy, otherwise
  \<^verbatim>\<open>'Unnamed Team'\<close>: an empty label does not win. The \<open>computeTeamSummary\<close> of
  \<^verbatim>\<open>src/script.js\<close> takes no label, drops one that a call passes, and resolves \<^verbatim>\<open>team_name\<close> when
  truthy, otherwise \<^verbatim>\<open>'Unnamed Team'\<close>.
\<close>

theorem teamName_resolution:
  "(computeTeamSummary teamJson overrideLabel = Inr s \<longrightarrow>
      teamName s =
        (if truthy overrideLabel then overrideLabel
         else if truthy (getProp teamJson ''team_name'') then getProp teamJson ''team_name''
         else JStr ''Unnamed Team'')) \<and>
   (script_call (teamJson # overrideLabel # rest) = Inr r \<longrightarrow>
      teamName r =
        (if truthy (getProp teamJson ''team_name'') then getProp teamJson ''team_name''
         else JStr ''Unnamed Team''))"
proof (intro conjI impI)
  assume "computeTeamSummary teamJson overrideLabel = Inr s"
  from computeTeamSummary_Inr(4) [OF this]
  show "teamName s =
        (if truthy overrideLabel then overrideLabel
         else if truthy (getProp teamJson ''team_name'') then getProp teamJson ''team_name''
         else JStr ''Unnamed Team'')"
    by (simp add: js_or_def)
next
  assume "script_call (teamJson # overrideLabel # rest) = Inr r"
  then have "script_computeTeamSummary teamJson = Inr r"
    by (simp add: script_call_def)
  from script_computeTeamSummary_Inr(4) [OF this]
  show "teamName r =
        (if truthy (getProp teamJson ''team_name'') then getProp teamJson ''team_name''
         else JStr ''Unnamed Team'')"
    by (simp add: js_or_def)
qed

theorem teamName_resolution_witness:
  "map (\<lambda>(teamJson, overrideLabel).
          case computeTeamSummary teamJson overrideLabel of
            Inl e \<Rightarrow> JUndefined
          | Inr s \<Rightarrow> teamName s)
     [(examplePayload, JStr ''Override''), (examplePayload, JUndefined),
      (JObj [], JUndefined)] =
   [JStr ''Override'', JStr ''Payload FC'', JStr ''Unnamed Team'']"
proof -
  obtain s1 where s1: "computeTeamSummary examplePayload (JStr ''Override'') = Inr s1"
    using computeTeamSummary_total [OF examplePayload_players examplePlayers_ok] by blast
  obtain s2 where s2: "computeTeamSummary examplePayload JUndefined = Inr s2"
    using computeTeamSummary_total [OF examplePayload_players examplePlayers_ok] by blast
  have "payloadPlayers (JObj []) = Inr []"
    by (simp add: payloadPlayers_def nullish_def js_or_def)
  then obtain s3 where s3: "computeTeamSummary (JObj []) JUndefined = Inr s3"
    using computeTeamSummary_total [of "JObj []" "[]"] by auto
  from teamName_resolution [of examplePayload "JStr ''Override''" s1]
    teamName_resolution [of examplePayload JUndefined s2]
    teamName_resolution [of "JObj []" JUndefined s3]
    s1 s2 s3
  show ?thesis
    by (simp add: examplePayload_def)
qed

theorem override_not_always_counterexample:
  "(case script_call [examplePayload, JStr ''Override''] of
      Inl e \<Rightarrow> JUndefined
    | Inr r \<Rightarrow> teamName r) = JStr ''Payload FC'' \<and>
   (case computeTeamSummary examplePayload (JStr []) of
      Inl e \<Rightarrow> JUndefined
    | Inr s \<Rightarrow> teamName s) = JStr ''Payload FC''"
proof -
  obtain r where r: "script_computeTeamSummary examplePayload = Inr r"
    using script_computeTeamSummary_total [OF examplePayload_players examplePlayers_ok] by blast
  obtain s where s: "computeTeamSummary examplePayload (JStr []) = Inr s"
    using computeTeamSummary_total [OF examplePayload_players examplePlayers_ok] by blast
  have "teamName r = JStr ''Payload FC''"
    using script_computeTeamSummary_Inr(4) [OF r] by (simp add: js_or_def examplePayload_def)
  moreover have "teamName s = JStr ''Payload FC''"
    using computeTeamSummary_Inr(4) [OF s] by (simp add: js_or_def examplePayload_def)
  ultimately show ?thesis
    using r s by (simp add: script_call_def)
qed

end
